theory Spec2Isabelle
  imports Main
begin

section \<open>The world the automation runs in\<close>

text \<open>
  The class \<^verbatim>\<open>ImageAutomation\<close> of \<^verbatim>\<open>anyi_main.py\<close> drives a desktop through library
  calls: it reads the clock, sleeps, asks whether a file exists, matches a template on the
  screen, clicks, presses keys, writes the clipboard, draws random numbers and logs.
  Every such call is an \<open>event\<close>; a run appends its events to the \<open>trace\<close> of the
  world, in the order of the calls.

  Time is counted in milliseconds (\<open>time.sleep(0.5)\<close> is \<open>sleep 500\<close>); pixel
  coordinates are Python integers.
\<close>

type_synonym coord = "int \<times> int"
type_synonym region = "int \<times> int \<times> int \<times> int"

text \<open>What \<^verbatim>\<open>pyautogui.locateCenterOnScreen\<close> does: a point, \<^verbatim>\<open>None\<close>, or an exception.\<close>

datatype locate_result = Found coord | NotFound | LocateRaised

text \<open>A library call that can raise either returns or raises.\<close>

datatype outcome = Done | Raised

datatype exn = PyException

datatype level = INFO | WARNING | ERROR

text \<open>The log lines of the class, one constructor for each \<^verbatim>\<open>logger\<close> call, with its arguments.\<close>

datatype logmsg =
    ImageFileMissing string          \<comment> \<open>line 447\<close>
  | WaitingForImage string           \<comment> \<open>line 450\<close>
  | LocateAttempt nat string         \<comment> \<open>line 459\<close>
  | FoundImage string coord          \<comment> \<open>line 467\<close>
  | LocateError string               \<comment> \<open>line 471\<close>
  | LocateRetry nat string           \<comment> \<open>line 473\<close>
  | PopupDetected coord              \<comment> \<open>line 483\<close>
  | WaitTimeout string               \<comment> \<open>line 490\<close>
  | ClickAttempt nat string          \<comment> \<open>line 507\<close>
  | ClickOk string coord             \<comment> \<open>line 518\<close>
  | ClickError string                \<comment> \<open>line 521\<close>
  | ClickGiveUp string               \<comment> \<open>line 526\<close>
  | ImeSwitched                      \<comment> \<open>line 539\<close>
  | ImeSwitchFailed                  \<comment> \<open>line 541\<close>
  | TextTyped string                 \<comment> \<open>line 558\<close>
  | TextTypeFailed                   \<comment> \<open>line 560\<close>
  | TextTypedFallback string         \<comment> \<open>line 564\<close>
  | FallbackFailed                   \<comment> \<open>line 566\<close>
  | EmailGenerated string            \<comment> \<open>line 579\<close>
  | SeqStepFailed string             \<comment> \<open>lines 594, 605, 613, 619, 625\<close>
  | SeqCompleted                     \<comment> \<open>line 629\<close>
  | SeqError                         \<comment> \<open>line 632\<close>

datatype event =
    Log level logmsg
  | Sleep nat                                   \<comment> \<open>\<^verbatim>\<open>time.sleep\<close>, milliseconds asked for\<close>
  | Exists string bool                          \<comment> \<open>\<^verbatim>\<open>os.path.exists(path)\<close> and its answer\<close>
  | Locate string "region option" locate_result \<comment> \<open>\<^verbatim>\<open>locateCenterOnScreen(path, region)\<close>\<close>
  | Click int int outcome                       \<comment> \<open>\<^verbatim>\<open>pyautogui.click(x, y)\<close>\<close>
  | PressShift outcome                          \<comment> \<open>\<^verbatim>\<open>keyboard.press_and_release('shift')\<close>\<close>
  | ClipCopy string outcome                     \<comment> \<open>\<^verbatim>\<open>pyperclip.copy(text)\<close>\<close>
  | HotkeyCtrlV outcome                         \<comment> \<open>\<^verbatim>\<open>pyautogui.hotkey('ctrl', 'v')\<close>\<close>
  | WriteText string nat outcome                \<comment> \<open>\<^verbatim>\<open>pyautogui.write(text, interval)\<close>\<close>
  | RandInt int int int                         \<comment> \<open>\<^verbatim>\<open>random.randint(a, b)\<close> and its value\<close>
  | RandChoice char                             \<comment> \<open>\<^verbatim>\<open>random.choice(chars)\<close> and its value\<close>
  | RandUniform nat                             \<comment> \<open>\<^verbatim>\<open>random.uniform(0.3, 0.6)\<close>, in milliseconds\<close>

text \<open>
  The state a run changes: the wall clock, the number of draws made from the random
  source, the system clipboard, and the trace of the calls made so far.
\<close>

record world =
  clock :: nat
  rng :: nat
  clipboard :: string
  trace :: "event list"

text \<open>
  What the program cannot decide is an \<open>env\<close>: the answer of the \<open>n\<close>-th library call
  of the run (\<open>n\<close> is the length of the trace at the call), for every \<open>n\<close>. A theorem
  for all \<open>env\<close> holds for every screen, every file system, every failing driver and
  every random sequence. \<open>cost\<close> is the time the \<open>n\<close>-th call takes beyond what it was
  asked to sleep; \<open>path_join\<close> is \<^verbatim>\<open>os.path.join\<close> of the platform; \<open>rounds_down\<close> is
  the rounding of the floating-point clock at the deadline test made there.
\<close>

record env =
  path_join :: "string \<Rightarrow> string \<Rightarrow> string"
  path_exists :: "nat \<Rightarrow> string \<Rightarrow> bool"
  screen :: "nat \<Rightarrow> string \<Rightarrow> region option \<Rightarrow> locate_result"
  fails :: "nat \<Rightarrow> bool"
  rand :: "nat \<Rightarrow> nat"
  cost :: "nat \<Rightarrow> nat"
  rounds_down :: "nat \<Rightarrow> bool"

subsection \<open>The constants of \<^verbatim>\<open>ImageAutomation.__init__\<close>\<close>

definition images_dir :: string where
  "images_dir = ''images''"

definition max_wait_time :: int where
  "max_wait_time = 30"

definition check_interval :: nat where
  "check_interval = 500"

definition retry_count :: nat where
  "retry_count = 3"

subsection \<open>Library calls\<close>

definition emit :: "env \<Rightarrow> event \<Rightarrow> world \<Rightarrow> world" where
  "emit E e w = w\<lparr>clock := clock w + cost E (length (trace w)), trace := trace w @ [e]\<rparr>"

definition log :: "env \<Rightarrow> level \<Rightarrow> logmsg \<Rightarrow> world \<Rightarrow> world" where
  "log E l m w = emit E (Log l m) w"

definition sleep :: "env \<Rightarrow> nat \<Rightarrow> world \<Rightarrow> world" where
  "sleep E d w = (let w' = emit E (Sleep d) w in w'\<lparr>clock := clock w' + d\<rparr>)"

definition os_path_exists :: "env \<Rightarrow> string \<Rightarrow> world \<Rightarrow> bool \<times> world" where
  "os_path_exists E path w =
     (let b = path_exists E (length (trace w)) path in (b, emit E (Exists path b) w))"

definition locateCenterOnScreen ::
    "env \<Rightarrow> string \<Rightarrow> region option \<Rightarrow> world \<Rightarrow> locate_result \<times> world" where
  "locateCenterOnScreen E path region w =
     (let r = screen E (length (trace w)) path region in (r, emit E (Locate path region r) w))"

definition call_outcome :: "env \<Rightarrow> world \<Rightarrow> outcome" where
  "call_outcome E w = (if fails E (length (trace w)) then Raised else Done)"

definition pyautogui_click :: "env \<Rightarrow> int \<Rightarrow> int \<Rightarrow> world \<Rightarrow> outcome \<times> world" where
  "pyautogui_click E x y w = (let r = call_outcome E w in (r, emit E (Click x y r) w))"

definition random_randint :: "env \<Rightarrow> int \<Rightarrow> int \<Rightarrow> world \<Rightarrow> int \<times> world" where
  "random_randint E a b w =
     (let v = a + int (rand E (rng w) mod nat (b - a + 1))
      in (v, emit E (RandInt a b v) (w\<lparr>rng := rng w + 1\<rparr>)))"

text \<open>
  \<^verbatim>\<open>random.choice(chars)\<close>; the program only calls it with the 62 characters of
  \<open>alnum_chars\<close>, never with an empty string.
\<close>

definition random_choice :: "env \<Rightarrow> string \<Rightarrow> world \<Rightarrow> char \<times> world" where
  "random_choice E chars w =
     (let c = chars ! (rand E (rng w) mod length chars)
      in (c, emit E (RandChoice c) (w\<lparr>rng := rng w + 1\<rparr>)))"

text \<open>\<^verbatim>\<open>random.uniform(0.3, 0.6)\<close>, in whole milliseconds between 300 and 600.\<close>

definition random_uniform :: "env \<Rightarrow> world \<Rightarrow> nat \<times> world" where
  "random_uniform E w =
     (let v = 300 + rand E (rng w) mod 301
      in (v, emit E (RandUniform v) (w\<lparr>rng := rng w + 1\<rparr>)))"

definition keyboard_press_shift :: "env \<Rightarrow> world \<Rightarrow> outcome \<times> world" where
  "keyboard_press_shift E w = (let r = call_outcome E w in (r, emit E (PressShift r) w))"

text \<open>\<^verbatim>\<open>pyperclip.copy(text)\<close> sets the clipboard unless it raises.\<close>

definition pyperclip_copy :: "env \<Rightarrow> string \<Rightarrow> world \<Rightarrow> outcome \<times> world" where
  "pyperclip_copy E text w =
     (let r = call_outcome E w
      in (r, emit E (ClipCopy text r) (if r = Done then w\<lparr>clipboard := text\<rparr> else w)))"

definition pyautogui_hotkey_ctrl_v :: "env \<Rightarrow> world \<Rightarrow> outcome \<times> world" where
  "pyautogui_hotkey_ctrl_v E w = (let r = call_outcome E w in (r, emit E (HotkeyCtrlV r) w))"

text \<open>
  \<^verbatim>\<open>pyautogui.write(text, interval)\<close> types the characters one by one and waits
  \<open>interval\<close> milliseconds after each; the library does both, so it is one call here.
\<close>

definition pyautogui_write :: "env \<Rightarrow> string \<Rightarrow> nat \<Rightarrow> world \<Rightarrow> outcome \<times> world" where
  "pyautogui_write E text interval w =
     (let r = call_outcome E w in (r, emit E (WriteText text interval r) w))"

subsection \<open>Locator and Actuator\<close>

definition get_image_path :: "env \<Rightarrow> string \<Rightarrow> string" where
  "get_image_path E image_name = path_join E images_dir image_name"

text \<open>Lines 457 to 459: the settle delay before every retry but the first.\<close>

definition settle_before_retry :: "env \<Rightarrow> string \<Rightarrow> nat \<Rightarrow> world \<Rightarrow> world" where
  "settle_before_retry E image_name retry w =
     (if retry > 0 then log E INFO (LocateAttempt (retry + 1) image_name) (sleep E 500 w) else w)"

text \<open>Lines 469 to 473: the handler of an exception of the match.\<close>

definition locate_failed :: "env \<Rightarrow> string \<Rightarrow> nat \<Rightarrow> world \<Rightarrow> world" where
  "locate_failed E image_name retry w =
     (if retry = retry_count - 1 then log E ERROR (LocateError image_name) w
      else log E WARNING (LocateRetry (retry + 1) image_name) w)"

text \<open>
  Lines 454 to 473: the \<^verbatim>\<open>for retry in range(self.retry_count)\<close> loop of one poll.
  \<open>Some location\<close> is the \<^verbatim>\<open>return location\<close> of line 468; \<open>None\<close> is the loop running
  out.
\<close>

function primary_retries ::
    "env \<Rightarrow> string \<Rightarrow> string \<Rightarrow> region option \<Rightarrow> nat \<Rightarrow> world \<Rightarrow> coord option \<times> world" where
  "primary_retries E image_name image_path region retry w =
     (if retry < retry_count then
        (case locateCenterOnScreen E image_path region (settle_before_retry E image_name retry w) of
           (Found location, w2) \<Rightarrow>
             (Some location, log E INFO (FoundImage image_name location) w2)
         | (NotFound, w2) \<Rightarrow> primary_retries E image_name image_path region (retry + 1) w2
         | (LocateRaised, w2) \<Rightarrow>
             primary_retries E image_name image_path region (retry + 1)
               (locate_failed E image_name retry w2))
      else (None, w))"
  by pat_completeness auto
termination
  by (relation "measure (\<lambda>(E, n, p, r, retry, w). retry_count - retry)") auto

declare primary_retries.simps [simp del]

text \<open>Lines 442 and 443: the default of the \<^verbatim>\<open>timeout\<close> argument, in seconds.\<close>

definition timeout_or_default :: "int option \<Rightarrow> int" where
  "timeout_or_default timeout = (case timeout of None \<Rightarrow> max_wait_time | Some t \<Rightarrow> t)"

text \<open>
  Line 453: the test \<^verbatim>\<open>time.time() - start_time < timeout\<close> of the \<^verbatim>\<open>while\<close> loop. The
  clock here counts whole milliseconds; the program subtracts and compares floating-point
  seconds. An elapsed time that differs from the timeout by a millisecond or more
  compares as it is. One equal to the timeout can come out of the subtraction just below
  it (\<^verbatim>\<open>4.004 - 1.004 < 3\<close> holds in IEEE doubles), and then the loop runs once more:
  \<open>rounds_down\<close> says whether it does.
\<close>

definition before_deadline :: "env \<Rightarrow> int \<Rightarrow> nat \<Rightarrow> world \<Rightarrow> bool" where
  "before_deadline E timeout start_time w =
     (int (clock w) - int start_time < timeout * 1000
      \<or> int (clock w) - int start_time = timeout * 1000 \<and> rounds_down E (length (trace w)))"

text \<open>Lines 506 to 508: the stabilisation delay before every attempt but the first.\<close>

definition stabilise_before_attempt :: "env \<Rightarrow> string \<Rightarrow> nat \<Rightarrow> world \<Rightarrow> world" where
  "stabilise_before_attempt E image_name attempt w =
     (if attempt > 0
      then sleep E 1000 (log E WARNING (ClickAttempt (attempt + 1) image_name) w)
      else w)"

text \<open>
  Lines 512 to 521: the \<^verbatim>\<open>try\<close> block that clicks at the location found, moved by a
  random offset, and the log line of its handler. \<open>Raised\<close> is the \<^verbatim>\<open>except\<close> branch.
\<close>

definition click_at :: "env \<Rightarrow> string \<Rightarrow> coord \<Rightarrow> world \<Rightarrow> outcome \<times> world" where
  "click_at E image_name location w =
     (case location of (x, y) \<Rightarrow>
     (case random_randint E (- 5) 5 w of (offset_x, w1) \<Rightarrow>
     (case random_randint E (- 5) 5 w1 of (offset_y, w2) \<Rightarrow>
     (case pyautogui_click E (x + offset_x) (y + offset_y) w2 of
        (Done, w3) \<Rightarrow>
          (Done, log E INFO (ClickOk image_name (x + offset_x, y + offset_y)) w3)
      | (Raised, w3) \<Rightarrow> (Raised, log E ERROR (ClickError image_name) w3)))))"

text \<open>
  \<^verbatim>\<open>wait_and_find_image\<close> (lines 430 to 491) with its \<^verbatim>\<open>while\<close> loop \<open>poll_loop\<close>, and
  \<^verbatim>\<open>click_image_with_offset\<close> (lines 493 to 527) with its \<^verbatim>\<open>for attempt\<close> loop
  \<open>click_attempts\<close>. The two methods call each other: the poll loop clicks the popup
  \<^verbatim>\<open>7.png\<close> away, and a click waits for its image. The \<^verbatim>\<open>try\<close> of lines 477 to 486
  drops both the result and any exception of that click.
\<close>

function wait_and_find_image ::
    "env \<Rightarrow> string \<Rightarrow> int option \<Rightarrow> region option \<Rightarrow> world \<Rightarrow> (exn + coord option) \<times> world"
  and poll_loop ::
    "env \<Rightarrow> string \<Rightarrow> string \<Rightarrow> int \<Rightarrow> region option \<Rightarrow> nat \<Rightarrow> world
       \<Rightarrow> (exn + coord option) \<times> world"
  and click_image_with_offset ::
    "env \<Rightarrow> string \<Rightarrow> int option \<Rightarrow> region option \<Rightarrow> world \<Rightarrow> (exn + bool) \<times> world"
  and click_attempts ::
    "env \<Rightarrow> string \<Rightarrow> int option \<Rightarrow> region option \<Rightarrow> nat \<Rightarrow> world \<Rightarrow> (exn + bool) \<times> world"
where
  "wait_and_find_image E image_name timeout region w =
     (case os_path_exists E (get_image_path E image_name) w of
        (False, w1) \<Rightarrow>
          (Inr None, log E ERROR (ImageFileMissing (get_image_path E image_name)) w1)
      | (True, w1) \<Rightarrow>
          poll_loop E image_name (get_image_path E image_name) (timeout_or_default timeout)
            region (clock (log E INFO (WaitingForImage image_name) w1))
            (log E INFO (WaitingForImage image_name) w1))"
| "poll_loop E image_name image_path timeout region start_time w =
     (if before_deadline E timeout start_time w then
        (case primary_retries E image_name image_path region 0 w of
           (Some location, w1) \<Rightarrow> (Inr (Some location), w1)
         | (None, w1) \<Rightarrow>
             (let w2 =
                (if image_name \<noteq> ''7.png'' then
                   (case locateCenterOnScreen E (get_image_path E ''7.png'') None w1 of
                      (Found popup_location, w1a) \<Rightarrow>
                        snd (click_image_with_offset E ''7.png'' None None
                               (log E INFO (PopupDetected popup_location) w1a))
                    | (NotFound, w1a) \<Rightarrow> w1a
                    | (LocateRaised, w1a) \<Rightarrow> w1a)
                 else w1)
              in poll_loop E image_name image_path timeout region start_time
                   (sleep E check_interval w2)))
      else (Inr None, log E WARNING (WaitTimeout image_name) w))"
| "click_image_with_offset E image_name timeout region w =
     click_attempts E image_name timeout region 0 w"
| "click_attempts E image_name timeout region attempt w =
     (if attempt < retry_count then
        (case wait_and_find_image E image_name timeout region
                (stabilise_before_attempt E image_name attempt w) of
           (Inl e, w2) \<Rightarrow> (Inl e, w2)
         | (Inr None, w2) \<Rightarrow> click_attempts E image_name timeout region (attempt + 1) w2
         | (Inr (Some location), w2) \<Rightarrow>
             (case click_at E image_name location w2 of
                (Done, w3) \<Rightarrow> (Inr True, w3)
              | (Raised, w3) \<Rightarrow>
                  if attempt = retry_count - 1 then (Inr False, w3)
                  else click_attempts E image_name timeout region (attempt + 1) w3))
      else (Inr False, log E ERROR (ClickGiveUp image_name) w))"
  by pat_completeness auto

text \<open>
  Lines 476 to 486 as the poll loop above runs them: the check for the popup after the
  primary retries of one poll, on the full screen.
\<close>

definition dismiss_popup :: "env \<Rightarrow> string \<Rightarrow> world \<Rightarrow> world" where
  "dismiss_popup E image_name w =
     (if image_name \<noteq> ''7.png'' then
        (case locateCenterOnScreen E (get_image_path E ''7.png'') None w of
           (Found popup_location, w1) \<Rightarrow>
             snd (click_image_with_offset E ''7.png'' None None
                    (log E INFO (PopupDetected popup_location) w1))
         | (NotFound, w1) \<Rightarrow> w1
         | (LocateRaised, w1) \<Rightarrow> w1)
      else w)"

subsection \<open>Text entry\<close>

text \<open>Lines 529 to 541. The \<^verbatim>\<open>except\<close> catches what either key press raises.\<close>

definition ensure_english_input :: "env \<Rightarrow> world \<Rightarrow> (exn + unit) \<times> world" where
  "ensure_english_input E w =
     (case keyboard_press_shift E w of
        (Raised, w1) \<Rightarrow> (Inr (), log E ERROR ImeSwitchFailed w1)
      | (Done, w1) \<Rightarrow>
          (case keyboard_press_shift E (sleep E 200 w1) of
             (Raised, w2) \<Rightarrow> (Inr (), log E ERROR ImeSwitchFailed w2)
           | (Done, w2) \<Rightarrow> (Inr (), log E INFO ImeSwitched w2)))"

text \<open>Lines 551 to 558: the \<^verbatim>\<open>try\<close> block of \<^verbatim>\<open>type_text_safely\<close>.\<close>

definition paste_text :: "env \<Rightarrow> string \<Rightarrow> world \<Rightarrow> (exn + unit) \<times> world" where
  "paste_text E text w =
     (case ensure_english_input E w of
        (Inl e, w1) \<Rightarrow> (Inl e, w1)
      | (Inr u, w1) \<Rightarrow>
          (case pyperclip_copy E text w1 of
             (Raised, w2) \<Rightarrow> (Inl PyException, w2)
           | (Done, w2) \<Rightarrow>
               (case pyautogui_hotkey_ctrl_v E (sleep E 200 w2) of
                  (Raised, w3) \<Rightarrow> (Inl PyException, w3)
                | (Done, w3) \<Rightarrow> (Inr (), log E INFO (TextTyped text) w3))))"

text \<open>Lines 543 to 566: the \<^verbatim>\<open>try\<close> block, and the fallback of its handler.\<close>

definition type_text_safely :: "env \<Rightarrow> string \<Rightarrow> world \<Rightarrow> (exn + unit) \<times> world" where
  "type_text_safely E text w =
     (case paste_text E text w of
        (Inr u, w1) \<Rightarrow> (Inr (), w1)
      | (Inl e, w1) \<Rightarrow>
          (case pyautogui_write E text 100 (log E ERROR TextTypeFailed w1) of
             (Done, w2) \<Rightarrow> (Inr (), log E INFO (TextTypedFallback text) w2)
           | (Raised, w2) \<Rightarrow> (Inr (), log E ERROR FallbackFailed w2)))"

subsection \<open>The random email\<close>

text \<open>\<^verbatim>\<open>string.ascii_letters + string.digits\<close>.\<close>

definition alnum_chars :: string where
  "alnum_chars = ''abcdefghijklmnopqrstuvwxyzABCDEFGHIJKLMNOPQRSTUVWXYZ0123456789''"

text \<open>Line 577: \<^verbatim>\<open>''.join(random.choice(chars) for _ in range(6))\<close>, for any count.\<close>

fun random_chars :: "env \<Rightarrow> nat \<Rightarrow> world \<Rightarrow> string \<times> world" where
  "random_chars E 0 w = ([], w)"
| "random_chars E (Suc k) w =
     (case random_choice E alnum_chars w of (c, w1) \<Rightarrow>
     (case random_chars E k w1 of (cs, w2) \<Rightarrow> (c # cs, w2)))"

definition generate_random_email :: "env \<Rightarrow> world \<Rightarrow> string \<times> world" where
  "generate_random_email E w =
     (case random_chars E 6 w of (random_str, w1) \<Rightarrow>
        (random_str @ ''@163.com'', log E INFO (EmailGenerated (random_str @ ''@163.com'')) w1))"

subsection \<open>Sequencer\<close>

text \<open>\<^verbatim>\<open>time.sleep(random.uniform(0.3, 0.6))\<close>, the pause after a step.\<close>

definition jitter :: "env \<Rightarrow> world \<Rightarrow> world" where
  "jitter E w = (case random_uniform E w of (d, w1) \<Rightarrow> sleep E d w1)"

text \<open>
  The statement \<^verbatim>\<open>if not self.click_image_with_offset(name): logger.error(...); return False\<close>
  of lines 593, 604, 612, 618 and 624. \<open>Inr False\<close> is the \<^verbatim>\<open>return False\<close>.
\<close>

definition click_or_abort :: "env \<Rightarrow> string \<Rightarrow> world \<Rightarrow> (exn + bool) \<times> world" where
  "click_or_abort E image_name w =
     (case click_image_with_offset E image_name None None w of
        (Inl e, w1) \<Rightarrow> (Inl e, w1)
      | (Inr False, w1) \<Rightarrow> (Inr False, log E ERROR (SeqStepFailed image_name) w1)
      | (Inr True, w1) \<Rightarrow> (Inr True, w1))"

text \<open>\<^verbatim>\<open>str(i)\<close> for a natural number, and the file name \<^verbatim>\<open>f"{i}.png"\<close> of line 592.\<close>

fun str_nat :: "nat \<Rightarrow> string" where
  "str_nat n =
     (if n < 10 then [''0123456789'' ! n]
      else str_nat (n div 10) @ [''0123456789'' ! (n mod 10)])"

definition image_file :: "nat \<Rightarrow> string" where
  "image_file i = str_nat i @ ''.png''"

text \<open>Lines 591 to 596: the loop over \<^verbatim>\<open>range(1, 4)\<close>, given as the list of its values.\<close>

fun click_each :: "env \<Rightarrow> nat list \<Rightarrow> world \<Rightarrow> (exn + bool) \<times> world" where
  "click_each E [] w = (Inr True, w)"
| "click_each E (i # rest) w =
     (case click_or_abort E (image_file i) w of
        (Inr True, w1) \<Rightarrow> click_each E rest (jitter E w1)
      | (Inr False, w1) \<Rightarrow> (Inr False, w1)
      | (Inl e, w1) \<Rightarrow> (Inl e, w1))"

text \<open>Lines 590 to 630: the body of the \<^verbatim>\<open>try\<close> of \<^verbatim>\<open>perform_automation_sequence\<close>.\<close>

definition sequence_body :: "env \<Rightarrow> world \<Rightarrow> (exn + bool) \<times> world" where
  "sequence_body E w =
     (case click_each E [1, 2, 3] w of
        (Inl e, w1) \<Rightarrow> (Inl e, w1)
      | (Inr False, w1) \<Rightarrow> (Inr False, w1)
      | (Inr True, w1) \<Rightarrow>
     (case generate_random_email E w1 of (email, w2) \<Rightarrow>
     (case type_text_safely E email w2 of
        (Inl e, w3) \<Rightarrow> (Inl e, w3)
      | (Inr u, w3) \<Rightarrow>
     (case click_or_abort E ''4.png'' (jitter E w3) of
        (Inl e, w4) \<Rightarrow> (Inl e, w4)
      | (Inr False, w4) \<Rightarrow> (Inr False, w4)
      | (Inr True, w4) \<Rightarrow>
     (case type_text_safely E email (jitter E w4) of
        (Inl e, w5) \<Rightarrow> (Inl e, w5)
      | (Inr u, w5) \<Rightarrow>
     (case click_or_abort E ''5.png'' (jitter E w5) of
        (Inl e, w6) \<Rightarrow> (Inl e, w6)
      | (Inr False, w6) \<Rightarrow> (Inr False, w6)
      | (Inr True, w6) \<Rightarrow>
     (case click_or_abort E ''1.png'' (jitter E w6) of
        (Inl e, w7) \<Rightarrow> (Inl e, w7)
      | (Inr False, w7) \<Rightarrow> (Inr False, w7)
      | (Inr True, w7) \<Rightarrow>
     (case click_or_abort E ''6.png'' (jitter E w7) of
        (Inl e, w8) \<Rightarrow> (Inl e, w8)
      | (Inr False, w8) \<Rightarrow> (Inr False, w8)
      | (Inr True, w8) \<Rightarrow> (Inr True, log E INFO SeqCompleted (jitter E w8))))))))))"

text \<open>Lines 582 to 633: the handler of line 631 turns any exception into \<^verbatim>\<open>False\<close>.\<close>

definition perform_automation_sequence :: "env \<Rightarrow> world \<Rightarrow> bool \<times> world" where
  "perform_automation_sequence E w =
     (case sequence_body E w of
        (Inr b, w1) \<Rightarrow> (b, w1)
      | (Inl e, w1) \<Rightarrow> (False, log E ERROR SeqError w1))"

section \<open>Notions used in the statements\<close>

text \<open>The events a run adds to the trace of the world it starts in.\<close>

definition new_events :: "world \<Rightarrow> world \<Rightarrow> event list" where
  "new_events w w' = drop (length (trace w)) (trace w')"

text \<open>The characters of \<^verbatim>\<open>[A-Za-z0-9]\<close>, by their codes.\<close>

definition is_alnum :: "char \<Rightarrow> bool" where
  "is_alnum c =
     (let k = (of_char c :: nat)
      in (48 \<le> k \<and> k \<le> 57) \<or> (65 \<le> k \<and> k \<le> 90) \<or> (97 \<le> k \<and> k \<le> 122))"

text \<open>The strings the pattern \<^verbatim>\<open>^[A-Za-z0-9]{6}@163\.com$\<close> matches.\<close>

definition matches_email_pattern :: "string \<Rightarrow> bool" where
  "matches_email_pattern s =
     (length s = 14 \<and> list_all is_alnum (take 6 s) \<and> drop 6 s = ''@163.com'')"

text \<open>
  The calls \<^verbatim>\<open>wait_and_find_image\<close> makes for the image it was asked for, and those
  \<^verbatim>\<open>click_image_with_offset\<close> adds for it.
\<close>

fun wait_log :: "env \<Rightarrow> string \<Rightarrow> logmsg \<Rightarrow> bool" where
  "wait_log E n (ImageFileMissing p) = (p = get_image_path E n)"
| "wait_log E n (WaitingForImage m) = (m = n)"
| "wait_log E n (LocateAttempt k m) = (m = n)"
| "wait_log E n (FoundImage m c) = (m = n)"
| "wait_log E n (LocateError m) = (m = n)"
| "wait_log E n (LocateRetry k m) = (m = n)"
| "wait_log E n (WaitTimeout m) = (m = n)"
| "wait_log E n _ = False"

fun click_log :: "string \<Rightarrow> logmsg \<Rightarrow> bool" where
  "click_log n (ClickAttempt k m) = (m = n)"
| "click_log n (ClickOk m c) = (m = n)"
| "click_log n (ClickError m) = (m = n)"
| "click_log n (ClickGiveUp m) = (m = n)"
| "click_log n _ = False"

fun wait_own :: "env \<Rightarrow> string \<Rightarrow> event \<Rightarrow> bool" where
  "wait_own E n (Log l m) = wait_log E n m"
| "wait_own E n (Sleep d) = True"
| "wait_own E n (Exists p b) = (p = get_image_path E n)"
| "wait_own E n (Locate p r res) = (p = get_image_path E n)"
| "wait_own E n _ = False"

fun click_own :: "env \<Rightarrow> string \<Rightarrow> event \<Rightarrow> bool" where
  "click_own E n (Log l m) = (wait_log E n m \<or> click_log n m)"
| "click_own E n (Sleep d) = True"
| "click_own E n (Exists p b) = (p = get_image_path E n)"
| "click_own E n (Locate p r res) = (p = get_image_path E n)"
| "click_own E n (Click x y r) = True"
| "click_own E n (RandInt a b v) = True"
| "click_own E n _ = False"

text \<open>The calls of the check for the popup: the match, the log line, the click on it.\<close>

fun popup_event :: "env \<Rightarrow> event \<Rightarrow> bool" where
  "popup_event E (Log l (PopupDetected c)) = True"
| "popup_event E e = click_own E ''7.png'' e"

definition wait_event :: "env \<Rightarrow> string \<Rightarrow> event \<Rightarrow> bool" where
  "wait_event E n e = (wait_own E n e \<or> n \<noteq> ''7.png'' \<and> popup_event E e)"

definition click_event :: "env \<Rightarrow> string \<Rightarrow> event \<Rightarrow> bool" where
  "click_event E n e = (click_own E n e \<or> n \<noteq> ''7.png'' \<and> popup_event E e)"

text \<open>
  A run from \<open>w\<close> to \<open>w'\<close> that only adds calls of the kind \<open>A\<close> to the trace and
  leaves the clipboard as it was.
\<close>

definition steps_by :: "(event \<Rightarrow> bool) \<Rightarrow> world \<Rightarrow> world \<Rightarrow> bool" where
  "steps_by A w w' =
     (take (length (trace w)) (trace w') = trace w \<and> list_all A (new_events w w')
      \<and> clipboard w' = clipboard w)"

text \<open>Key presses, clipboard writes and typed text; and the making of the email.\<close>

fun typing_event :: "event \<Rightarrow> bool" where
  "typing_event (PressShift r) = True"
| "typing_event (ClipCopy s r) = True"
| "typing_event (HotkeyCtrlV r) = True"
| "typing_event (WriteText s d r) = True"
| "typing_event _ = False"

fun email_event :: "event \<Rightarrow> bool" where
  "email_event (RandChoice c) = True"
| "email_event (Log l (EmailGenerated s)) = True"
| "email_event _ = False"

text \<open>
  The click at position \<open>i\<close> of a trace follows a match: the four calls before it are
  the match of a template at \<open>(cx, cy)\<close>, its log line and two draws \<open>dx\<close> and \<open>dy\<close>
  from \<open>-5 .. 5\<close>, and the click is at \<open>(cx + dx, cy + dy)\<close>.
\<close>

definition click_follows_match :: "event list \<Rightarrow> nat \<Rightarrow> bool" where
  "click_follows_match es i =
     (\<forall>x y outc. es ! i = Click x y outc \<longrightarrow>
        4 \<le> i \<and>
        (\<exists>p r m cx cy dx dy.
           es ! (i - 4) = Locate p r (Found (cx, cy)) \<and>
           es ! (i - 3) = Log INFO (FoundImage m (cx, cy)) \<and>
           es ! (i - 2) = RandInt (- 5) 5 dx \<and>
           es ! (i - 1) = RandInt (- 5) 5 dy \<and>
           x = cx + dx \<and> y = cy + dy \<and>
           - 5 \<le> dx \<and> dx \<le> 5 \<and> - 5 \<le> dy \<and> dy \<le> 5))"

text \<open>A run from \<open>w\<close> to \<open>w'\<close> in which every click follows a match.\<close>

definition clicks_follow_matches :: "world \<Rightarrow> world \<Rightarrow> bool" where
  "clicks_follow_matches w w' =
     (take (length (trace w)) (trace w') = trace w \<and>
      (\<forall>i. length (trace w) \<le> i \<and> i < length (trace w') \<longrightarrow>
         click_follows_match (trace w') i))"

text \<open>The log line that announces a further attempt to click the image \<open>n\<close>.\<close>

fun attempt_log :: "string \<Rightarrow> event \<Rightarrow> bool" where
  "attempt_log n (Log l (ClickAttempt k m)) = (m = n)"
| "attempt_log n _ = False"

text \<open>
  In a list of calls, every line that announces a further attempt to click \<open>n\<close> is
  followed by a sleep of 1000 ms and then by the first call of the wait for \<open>n\<close>.
\<close>

definition attempts_delayed :: "env \<Rightarrow> string \<Rightarrow> event list \<Rightarrow> bool" where
  "attempts_delayed E n es =
     (\<forall>i. i < length es \<and> attempt_log n (es ! i) \<longrightarrow>
        Suc (Suc i) < length es \<and> es ! Suc i = Sleep 1000 \<and>
        (\<exists>b. es ! Suc (Suc i) = Exists (get_image_path E n) b))"



text \<open>The template at \<open>path\<close> is never matched, whenever and wherever the screen is searched.\<close>

definition never_matches :: "env \<Rightarrow> string \<Rightarrow> bool" where
  "never_matches E path = (\<forall>k r loc. screen E k path r \<noteq> Found loc)"

text \<open>No call takes time beyond the sleep it was asked for.\<close>

definition instantaneous :: "env \<Rightarrow> bool" where
  "instantaneous E = (\<forall>k. cost E k = 0)"

subsection \<open>The script of the spec\<close>

text \<open>
  Modelled on the words of the spec, section 4.3, to name the steps that come before a
  step: click 1, click 2, click 3 (a pause after each), make the email, type it, click
  4, type it again, click 5, click 1, click 6. A step that fails ends the run.
\<close>

datatype step = ClickStep string | Pause | NewEmail | TypeEmail

fun run_steps :: "env \<Rightarrow> step list \<Rightarrow> string \<Rightarrow> world \<Rightarrow> (exn + bool) \<times> string \<times> world" where
  "run_steps E [] email w = (Inr True, email, w)"
| "run_steps E (ClickStep n # rest) email w =
     (case click_or_abort E n w of
        (Inr True, w1) \<Rightarrow> run_steps E rest email w1
      | (Inr False, w1) \<Rightarrow> (Inr False, email, w1)
      | (Inl e, w1) \<Rightarrow> (Inl e, email, w1))"
| "run_steps E (Pause # rest) email w = run_steps E rest email (jitter E w)"
| "run_steps E (NewEmail # rest) email w =
     (case generate_random_email E w of (email', w1) \<Rightarrow> run_steps E rest email' w1)"
| "run_steps E (TypeEmail # rest) email w =
     (case type_text_safely E email w of
        (Inr u, w1) \<Rightarrow> run_steps E rest email w1
      | (Inl e, w1) \<Rightarrow> (Inl e, email, w1))"

definition sequence_script :: "step list" where
  "sequence_script =
     [ClickStep ''1.png'', Pause, ClickStep ''2.png'', Pause, ClickStep ''3.png'', Pause,
      NewEmail, TypeEmail, Pause,
      ClickStep ''4.png'', Pause, TypeEmail, Pause,
      ClickStep ''5.png'', Pause,
      ClickStep ''1.png'', Pause,
      ClickStep ''6.png'', Pause]"

text \<open>The end of a run of the script: line 629 logs that all steps went through.\<close>

definition conclude :: "env \<Rightarrow> (exn + bool) \<times> string \<times> world \<Rightarrow> (exn + bool) \<times> world" where
  "conclude E res =
     (case res of
        (Inr True, email, w1) \<Rightarrow> (Inr True, log E INFO SeqCompleted w1)
      | (Inr False, email, w1) \<Rightarrow> (Inr False, w1)
      | (Inl e, email, w1) \<Rightarrow> (Inl e, w1))"

fun click_or_pause :: "step \<Rightarrow> bool" where
  "click_or_pause (ClickStep n) = True"
| "click_or_pause Pause = True"
| "click_or_pause _ = False"

subsection \<open>A wait and a click that never look for the popup\<close>

text \<open>
  Modelled on the words of the claim that handling the popup never nests, to compare
  with the methods of the source: \<^verbatim>\<open>wait_and_find_image\<close> and
  \<^verbatim>\<open>click_image_with_offset\<close> as they stand, with lines 476 to 486, the check for
  the popup and the click on it, left out. The wait calls no click at all, and the click
  calls this wait only.
\<close>

function poll_without_scan ::
    "env \<Rightarrow> string \<Rightarrow> string \<Rightarrow> int \<Rightarrow> region option \<Rightarrow> nat \<Rightarrow> world
       \<Rightarrow> (exn + coord option) \<times> world" where
  "poll_without_scan E image_name image_path timeout region start_time w =
     (if before_deadline E timeout start_time w then
        (case primary_retries E image_name image_path region 0 w of
           (Some location, w1) \<Rightarrow> (Inr (Some location), w1)
         | (None, w1) \<Rightarrow>
             poll_without_scan E image_name image_path timeout region start_time
               (sleep E check_interval w1))
      else (Inr None, log E WARNING (WaitTimeout image_name) w))"
  by pat_completeness auto

definition wait_without_scan ::
    "env \<Rightarrow> string \<Rightarrow> int option \<Rightarrow> region option \<Rightarrow> world \<Rightarrow> (exn + coord option) \<times> world"
  where
  "wait_without_scan E image_name timeout region w =
     (case os_path_exists E (get_image_path E image_name) w of
        (False, w1) \<Rightarrow>
          (Inr None, log E ERROR (ImageFileMissing (get_image_path E image_name)) w1)
      | (True, w1) \<Rightarrow>
          poll_without_scan E image_name (get_image_path E image_name)
            (timeout_or_default timeout) region
            (clock (log E INFO (WaitingForImage image_name) w1))
            (log E INFO (WaitingForImage image_name) w1))"

function attempts_without_scan ::
    "env \<Rightarrow> string \<Rightarrow> int option \<Rightarrow> region option \<Rightarrow> nat \<Rightarrow> world \<Rightarrow> (exn + bool) \<times> world"
  where
  "attempts_without_scan E image_name timeout region attempt w =
     (if attempt < retry_count then
        (case wait_without_scan E image_name timeout region
                (stabilise_before_attempt E image_name attempt w) of
           (Inl e, w2) \<Rightarrow> (Inl e, w2)
         | (Inr None, w2) \<Rightarrow> attempts_without_scan E image_name timeout region (attempt + 1) w2
         | (Inr (Some location), w2) \<Rightarrow>
             (case click_at E image_name location w2 of
                (Done, w3) \<Rightarrow> (Inr True, w3)
              | (Raised, w3) \<Rightarrow>
                  if attempt = retry_count - 1 then (Inr False, w3)
                  else attempts_without_scan E image_name timeout region (attempt + 1) w3))
      else (Inr False, log E ERROR (ClickGiveUp image_name) w))"
  by pat_completeness auto

definition click_without_scan ::
    "env \<Rightarrow> string \<Rightarrow> int option \<Rightarrow> region option \<Rightarrow> world \<Rightarrow> (exn + bool) \<times> world" where
  "click_without_scan E image_name timeout region w =
     attempts_without_scan E image_name timeout region 0 w"

subsection \<open>Concrete worlds\<close>

text \<open>
  An environment in which no call takes time, paths are joined with a slash, and the
  file system, the screen, the drivers and the random source are as given.
\<close>

definition env_of ::
    "(string \<Rightarrow> bool) \<Rightarrow> (string \<Rightarrow> locate_result) \<Rightarrow> (nat \<Rightarrow> bool) \<Rightarrow> (nat \<Rightarrow> nat) \<Rightarrow> env" where
  "env_of files shown failing draws =
     \<lparr>path_join = (\<lambda>d n. d @ ''/'' @ n),
      path_exists = (\<lambda>k. files),
      screen = (\<lambda>k p r. shown p),
      fails = failing,
      rand = draws,
      cost = (\<lambda>k. 0),
      rounds_down = (\<lambda>k. False)\<rparr>"

text \<open>
  A desktop on which every click goes through and every template but \<^verbatim>\<open>3.png\<close> has its
  file and is matched at (10, 20) wherever it is looked for; the popup never shows.
\<close>

definition template_3_missing :: env where
  "template_3_missing =
     env_of (\<lambda>p. p \<noteq> ''images/3.png'')
       (\<lambda>p. if p = ''images/7.png'' then NotFound else Found (10, 20))
       (\<lambda>k. False) (\<lambda>k. 0)"

text \<open>The steps of the script before the click on \<^verbatim>\<open>3.png\<close>, and those after it.\<close>

definition steps_before_3 :: "step list" where
  "steps_before_3 = [ClickStep ''1.png'', Pause, ClickStep ''2.png'', Pause]"

definition steps_after_3 :: "step list" where
  "steps_after_3 =
     [Pause, NewEmail, TypeEmail, Pause,
      ClickStep ''4.png'', Pause, TypeEmail, Pause,
      ClickStep ''5.png'', Pause,
      ClickStep ''1.png'', Pause,
      ClickStep ''6.png'', Pause]"

text \<open>A desktop on which every key press, clipboard write and click raises.\<close>

definition all_drivers_fail :: env where
  "all_drivers_fail = env_of (\<lambda>p. True) (\<lambda>p. NotFound) (\<lambda>k. True) (\<lambda>k. 0)"

text \<open>
  A desktop on which every file exists, nothing is ever matched, and no call raises or
  takes time.
\<close>

definition nothing_shown :: env where
  "nothing_shown = env_of (\<lambda>p. True) (\<lambda>p. NotFound) (\<lambda>k. False) (\<lambda>k. 0)"

text \<open>
  The same desktop, where the floating-point subtraction of the deadline test rounds an
  elapsed time equal to the timeout below it.
\<close>

definition clock_rounds_down :: env where
  "clock_rounds_down = nothing_shown\<lparr>rounds_down := (\<lambda>k. True)\<rparr>"



text \<open>
  A desktop on which every template is matched at (100, 200) at once and every click goes
  through; the random source is as given.
\<close>

definition shown_at_100_200 :: "(nat \<Rightarrow> nat) \<Rightarrow> env" where
  "shown_at_100_200 draws = env_of (\<lambda>p. True) (\<lambda>p. Found (100, 200)) (\<lambda>k. False) draws"

text \<open>
  A desktop on which every template is matched at (100, 200) at once and every click
  raises.
\<close>

definition clicks_raise :: env where
  "clicks_raise = env_of (\<lambda>p. True) (\<lambda>p. Found (100, 200)) (\<lambda>k. True) (\<lambda>k. 0)"

definition world0 :: world where
  "world0 = \<lparr>clock = 0, rng = 0, clipboard = [], trace = []\<rparr>"

text \<open>
  A run that starts when the clock reads 1.004 s: three seconds later the program reads
  4.004 s, and \<^verbatim>\<open>4.004 - 1.004 < 3\<close> holds in IEEE doubles.
\<close>

definition started_at_1004 :: world where
  "started_at_1004 = \<lparr>clock = 1004, rng = 0, clipboard = [], trace = []\<rparr>"

section \<open>Termination\<close>

lemma before_deadlineI:
  "int (clock w) - int s < t * 1000 \<Longrightarrow> before_deadline E t s w"
  by (simp add: before_deadline_def)

lemma before_deadline_le:
  "before_deadline E t s w \<Longrightarrow> int (clock w) - int s \<le> t * 1000"
  by (auto simp: before_deadline_def)

lemma after_deadline:
  "\<not> before_deadline E t s w \<Longrightarrow> t * 1000 \<le> int (clock w) - int s"
  by (auto simp: before_deadline_def)

lemma before_deadline_exact:
  "\<forall>k. \<not> rounds_down E k \<Longrightarrow>
     before_deadline E t s w \<longleftrightarrow> int (clock w) - int s < t * 1000"
  by (simp add: before_deadline_def)


text \<open>What a library call leaves alone.\<close>

lemma emit_fields [simp]:
  "trace (emit E e w) = trace w @ [e]"
  "clipboard (emit E e w) = clipboard w"
  "rng (emit E e w) = rng w"
  by (simp_all add: emit_def)

lemma log_fields [simp]:
  "trace (log E l m w) = trace w @ [Log l m]"
  "clipboard (log E l m w) = clipboard w"
  "rng (log E l m w) = rng w"
  by (simp_all add: log_def)

lemma sleep_fields [simp]:
  "trace (sleep E d w) = trace w @ [Sleep d]"
  "clipboard (sleep E d w) = clipboard w"
  "rng (sleep E d w) = rng w"
  by (simp_all add: sleep_def Let_def)

text \<open>No library call moves the clock back.\<close>

lemma clock_log: "clock w \<le> clock (log E l m w)"
  by (simp add: log_def emit_def)

lemma clock_sleep: "clock w + d \<le> clock (sleep E d w)"
  by (simp add: sleep_def emit_def Let_def)

lemma clock_settle: "clock w \<le> clock (settle_before_retry E n i w)"
  using clock_log [of "sleep E 500 w" E] clock_sleep [of w 500 E]
  by (simp add: settle_before_retry_def order_trans [OF _ clock_log])

lemma clock_locate_failed: "clock w \<le> clock (locate_failed E n i w)"
  by (simp add: locate_failed_def clock_log)

lemma clock_stabilise: "clock w \<le> clock (stabilise_before_attempt E n a w)"
  using clock_sleep [of "log E WARNING (ClickAttempt (a + 1) n) w" 1000 E] clock_log [of w E]
  by (simp add: stabilise_before_attempt_def) (meson add_leD1 order_trans)

lemma clock_locate: "clock w \<le> clock (snd (locateCenterOnScreen E p r w))"
  by (simp add: locateCenterOnScreen_def emit_def Let_def)

lemma clock_exists: "clock w \<le> clock (snd (os_path_exists E p w))"
  by (simp add: os_path_exists_def emit_def Let_def)

lemma clock_click_at: "clock w \<le> clock (snd (click_at E n loc w))"
  by (simp add: click_at_def random_randint_def pyautogui_click_def log_def emit_def Let_def
      split: prod.splits outcome.splits)

lemma clock_primary_retries: "clock w \<le> clock (snd (primary_retries E n p r i w))"
proof (induction E n p r i w rule: primary_retries.induct)
  case (1 E n p r i w)
  show ?case
  proof (cases "i < retry_count")
    case False
    then show ?thesis by (simp add: primary_retries.simps [of E n p r i w])
  next
    case True
    let ?w1 = "settle_before_retry E n i w"
    obtain res w2 where loc: "locateCenterOnScreen E p r ?w1 = (res, w2)"
      by (cases "locateCenterOnScreen E p r ?w1")
    have le2: "clock w \<le> clock w2"
      using clock_locate [of ?w1 E p r] clock_settle [of w E n i] loc by simp
    note unfold = primary_retries.simps [of E n p r i w]
    show ?thesis
    proof (cases res)
      case (Found c)
      then show ?thesis
        using True loc le2 clock_log [of w2 E INFO "FoundImage n c"] by (simp add: unfold)
    next
      case NotFound
      then show ?thesis
        using True loc le2 "1.IH"(1) [OF True loc [symmetric] NotFound] by (simp add: unfold)
    next
      case LocateRaised
      then show ?thesis
        using True loc le2 clock_locate_failed [of w2 E n i]
          "1.IH"(2) [OF True loc [symmetric] LocateRaised]
        by (simp add: unfold)
    qed
  qed
qed

lemma clock_partial:
  "wait_and_find_image_poll_loop_click_image_with_offset_click_attempts_dom (Inl (Inl (E, n, t, r, w)))
     \<Longrightarrow> clock w \<le> clock (snd (wait_and_find_image E n t r w))"
  "wait_and_find_image_poll_loop_click_image_with_offset_click_attempts_dom (Inl (Inr (E, n, p, ti, r, s, w)))
     \<Longrightarrow> clock w \<le> clock (snd (poll_loop E n p ti r s w))"
  "wait_and_find_image_poll_loop_click_image_with_offset_click_attempts_dom (Inr (Inl (E, n, t, r, w)))
     \<Longrightarrow> clock w \<le> clock (snd (click_image_with_offset E n t r w))"
  "wait_and_find_image_poll_loop_click_image_with_offset_click_attempts_dom (Inr (Inr (E, n, t, r, a, w)))
     \<Longrightarrow> clock w \<le> clock (snd (click_attempts E n t r a w))"
proof (induction rule: wait_and_find_image_poll_loop_click_image_with_offset_click_attempts.pinduct)
  case (1 E n t r w)
  obtain b w1 where ex: "os_path_exists E (get_image_path E n) w = (b, w1)"
    by (cases "os_path_exists E (get_image_path E n) w")
  have le1: "clock w \<le> clock w1"
    using clock_exists [of w E "get_image_path E n"] ex by simp
  show ?case
  proof (cases b)
    case False
    then show ?thesis
      using ex le1 clock_log [of w1 E]
      by (simp add: wait_and_find_image.psimps [OF 1(1)] order_trans [OF le1 clock_log])
  next
    case True
    then have bT: "b = True" by simp
    show ?thesis
      using ex True le1 clock_log [of w1 E INFO "WaitingForImage n"]
        1(2) [OF ex [symmetric] bT]
      by (simp add: wait_and_find_image.psimps [OF 1(1)])
  qed
next
  case (2 E n p ti r s w)
  note unfold = poll_loop.psimps [OF 2(1)]
  show ?case
  proof (cases "before_deadline E ti s w")
    case False
    then show ?thesis using clock_log [of w E] by (simp add: unfold)
  next
    case deadline: True
    obtain res w1 where pr: "primary_retries E n p r 0 w = (res, w1)"
      by (cases "primary_retries E n p r 0 w")
    have le1: "clock w \<le> clock w1"
      using clock_primary_retries [of w E n p r 0] pr by simp
    show ?thesis
    proof (cases res)
      case (Some loc)
      then show ?thesis using deadline pr le1 by (simp add: unfold)
    next
      case None
      define w2 where "w2 =
                (if n \<noteq> ''7.png'' then
                   (case locateCenterOnScreen E (get_image_path E ''7.png'') None w1 of
                      (Found popup_location, w1a) \<Rightarrow>
                        snd (click_image_with_offset E ''7.png'' None None
                               (log E INFO (PopupDetected popup_location) w1a))
                    | (NotFound, w1a) \<Rightarrow> w1a
                    | (LocateRaised, w1a) \<Rightarrow> w1a)
                 else w1)"
      have le2: "clock w1 \<le> clock w2"
      proof (cases "n = ''7.png''")
        case True
        then show ?thesis by (simp add: w2_def)
      next
        case False
        obtain pres w1a where sc:
          "locateCenterOnScreen E (get_image_path E ''7.png'') None w1 = (pres, w1a)"
          by (cases "locateCenterOnScreen E (get_image_path E ''7.png'') None w1")
        have le1a: "clock w1 \<le> clock w1a"
          using clock_locate [of w1 E "get_image_path E ''7.png''" None] sc by simp
        show ?thesis
        proof (cases pres)
          case (Found loc)
          have "clock (log E INFO (PopupDetected loc) w1a)
                  \<le> clock (snd (click_image_with_offset E ''7.png'' None None
                               (log E INFO (PopupDetected loc) w1a)))"
            using 2(2) [OF deadline pr [symmetric] None False sc [symmetric] Found] .
          then show ?thesis
            using False sc Found le1a clock_log [of w1a E INFO "PopupDetected loc"]
            by (simp add: w2_def)
        qed (use False sc le1a in \<open>simp_all add: w2_def\<close>)
      qed
      have "clock (sleep E check_interval w2)
              \<le> clock (snd (poll_loop E n p ti r s (sleep E check_interval w2)))"
        using 2(3) [OF deadline pr [symmetric] None w2_def] .
      then show ?thesis
        using deadline pr None le1 le2 clock_sleep [of w2 check_interval E]
        by (simp add: unfold w2_def [symmetric])
    qed
  qed
next
  case (3 E n t r w)
  then show ?case by (simp add: click_image_with_offset.psimps [OF 3(1)])
next
  case (4 E n t r a w)
  note unfold = click_attempts.psimps [OF 4(1)]
  show ?case
  proof (cases "a < retry_count")
    case False
    then show ?thesis using clock_log [of w E] by (simp add: unfold)
  next
    case True
    let ?w1 = "stabilise_before_attempt E n a w"
    obtain res w2 where wt: "wait_and_find_image E n t r ?w1 = (res, w2)"
      by (cases "wait_and_find_image E n t r ?w1")
    have le2: "clock w \<le> clock w2"
      using 4(2) [OF True] wt clock_stabilise [of w E n a] by simp
    show ?thesis
    proof (cases res)
      case (Inl e)
      then show ?thesis using True wt le2 by (simp add: unfold)
    next
      case (Inr found)
      show ?thesis
      proof (cases found)
        case None
        then show ?thesis
          using True wt Inr le2 4(3) [OF True wt [symmetric] Inr None] by (simp add: unfold)
      next
        case (Some loc)
        obtain cres w3 where ca: "click_at E n loc w2 = (cres, w3)"
          by (cases "click_at E n loc w2")
        have le3: "clock w \<le> clock w3"
          using le2 clock_click_at [of w2 E n loc] ca by simp
        show ?thesis
        proof (cases cres)
          case Done
          then show ?thesis using True wt Inr Some ca le3 by (simp add: unfold)
        next
          case Raised
          have eq: "click_attempts E n t r a w =
                      (if a = retry_count - 1 then (Inr False, w3)
                       else click_attempts E n t r (a + 1) w3)"
            using True wt Inr Some ca Raised by (simp add: unfold)
          show ?thesis
          proof (cases "a = retry_count - 1")
            case last: True
            show ?thesis unfolding eq using last le3 by simp
          next
            case False
            show ?thesis
              unfolding eq
              using False le3
                4(4) [OF True wt [symmetric] Inr Some ca [symmetric] Raised False]
              by simp
          qed
        qed
      qed
    qed
  qed
qed

lemma poll_progress:
  assumes pr: "(None, y) = primary_retries E n p r 0 w"
    and dom: "\<And>ya x1. n \<noteq> ''7.png'' \<Longrightarrow>
             (Found x1, ya) = locateCenterOnScreen E (get_image_path E ''7.png'') None y \<Longrightarrow>
             wait_and_find_image_poll_loop_click_image_with_offset_click_attempts_dom
               (Inr (Inl (E, ''7.png'', None, None, log E INFO (PopupDetected x1) ya)))"
  shows "clock w < clock (sleep E check_interval
           (if n \<noteq> ''7.png'' then
              (case locateCenterOnScreen E (get_image_path E ''7.png'') None y of
                 (Found popup_location, w1a) \<Rightarrow>
                   snd (click_image_with_offset E ''7.png'' None None
                          (log E INFO (PopupDetected popup_location) w1a))
               | (NotFound, w1a) \<Rightarrow> w1a
               | (LocateRaised, w1a) \<Rightarrow> w1a)
            else y))" (is "_ < clock (sleep E check_interval ?w2)")
proof -
  have le1: "clock w \<le> clock y"
    using clock_primary_retries [of w E n p r 0] pr [symmetric] by simp
  have le2: "clock y \<le> clock ?w2"
  proof (cases "n = ''7.png''")
    case True
    then show ?thesis by simp
  next
    case False
    obtain pres w1a where sc:
      "locateCenterOnScreen E (get_image_path E ''7.png'') None y = (pres, w1a)"
      by (cases "locateCenterOnScreen E (get_image_path E ''7.png'') None y")
    have le1a: "clock y \<le> clock w1a"
      using clock_locate [of y E "get_image_path E ''7.png''" None] sc by simp
    show ?thesis
    proof (cases pres)
      case (Found loc)
      have "clock (log E INFO (PopupDetected loc) w1a)
              \<le> clock (snd (click_image_with_offset E ''7.png'' None None
                           (log E INFO (PopupDetected loc) w1a)))"
        using clock_partial(3) [OF dom [OF False]] sc Found by simp
      then show ?thesis
        using False sc Found le1a clock_log [of w1a E INFO "PopupDetected loc"] by simp
    qed (use False sc le1a in simp_all)
  qed
  show ?thesis
    using le1 le2 clock_sleep [of ?w2 check_interval E] by (simp add: check_interval_def)
qed

text \<open>
  Both loops end: the \<^verbatim>\<open>for\<close> loop counts up to \<open>retry_count\<close>, every round of the
  \<^verbatim>\<open>while\<close> loop sleeps \<open>check_interval\<close> and so moves the clock towards the
  deadline, and the click that a poll for another image starts is a click on \<^verbatim>\<open>7.png\<close>,
  whose own polls start no click.
\<close>

termination wait_and_find_image
proof (relation "inv_image (less_than <*lex*> less_than <*lex*> less_than)
     (\<lambda>x. case x of
        Inl (Inl (E, n, t, r, w)) \<Rightarrow> (if n = ''7.png'' then 0 else 1, 2::nat, 0::nat)
      | Inl (Inr (E, n, p, t, r, s, w)) \<Rightarrow>
          (if n = ''7.png'' then 0 else 1, 1, nat (t * 1000 + 1 - (int (clock w) - int s)))
      | Inr (Inl (E, n, t, r, w)) \<Rightarrow> (if n = ''7.png'' then 0 else 1, 4, 0)
      | Inr (Inr (E, n, t, r, a, w)) \<Rightarrow> (if n = ''7.png'' then 0 else 1, 3, retry_count - a))",
    goal_cases)
  case 1
  show ?case by (intro wf_inv_image wf_lex_prod wf_less_than)
next
  case (2 E image_name timeout region w x y)
  show ?case by simp
next
  case (3 E image_name image_path timeout region start_time w x y xa ya x1)
  then show ?case by simp
next
  case (4 E image_name image_path timeout region start_time w x y xa)
  have "clock w < clock (sleep E check_interval xa)"
    unfolding 4(4) using poll_progress [OF _ 4(5)] 4(2,3) by simp
  then show ?case using before_deadline_le [OF 4(1)] by simp
next
  case 5
  show ?case by simp
next
  case 6
  show ?case by simp
next
  case 7
  then show ?case by simp
next
  case 8
  then show ?case by simp
qed

declare wait_and_find_image.simps [simp del] poll_loop.simps [simp del]
  click_image_with_offset.simps [simp del] click_attempts.simps [simp del]

text \<open>So do the loops of the wait and the click that never look for the popup.\<close>

termination poll_without_scan
proof (relation "measure (\<lambda>(E, n, p, t, r, s, w). nat (t * 1000 + 1 - (int (clock w) - int s)))",
    goal_cases)
  case 1
  show ?case by simp
next
  case (2 E n p t r s w x y)
  have "clock w \<le> clock y"
    using clock_primary_retries [of w E n p r 0] 2(2) [symmetric] by simp
  then have "clock w < clock (sleep E check_interval y)"
    using clock_sleep [of y check_interval E] by (simp add: check_interval_def)
  then show ?case using before_deadline_le [OF 2(1)] by simp
qed

termination attempts_without_scan
  by (relation "measure (\<lambda>(E, n, t, r, a, w). retry_count - a)") auto

declare poll_without_scan.simps [simp del] attempts_without_scan.simps [simp del]

section \<open>One round of the poll loop, and induction over the calls\<close>

lemma poll_loop_step:
  "poll_loop E n p t r s w =
     (if before_deadline E t s w then
        (case primary_retries E n p r 0 w of
           (Some location, w1) \<Rightarrow> (Inr (Some location), w1)
         | (None, w1) \<Rightarrow> poll_loop E n p t r s (sleep E check_interval (dismiss_popup E n w1)))
      else (Inr None, log E WARNING (WaitTimeout n) w))"
  by (subst poll_loop.simps) (simp add: dismiss_popup_def Let_def split: prod.split option.split)

lemma automation_induct [case_names wait poll click attempts]:
  assumes wait: "\<And>E n t r w.
      (\<And>w1. os_path_exists E (get_image_path E n) w = (True, w1) \<Longrightarrow>
         Q E n (get_image_path E n) (timeout_or_default t) r
           (clock (log E INFO (WaitingForImage n) w1)) (log E INFO (WaitingForImage n) w1))
      \<Longrightarrow> P E n t r w"
    and poll: "\<And>E n p t r s w.
      (\<And>w1 loc w1a. before_deadline E t s w \<Longrightarrow>
         primary_retries E n p r 0 w = (None, w1) \<Longrightarrow> n \<noteq> ''7.png'' \<Longrightarrow>
         locateCenterOnScreen E (get_image_path E ''7.png'') None w1 = (Found loc, w1a) \<Longrightarrow>
         R E ''7.png'' None None (log E INFO (PopupDetected loc) w1a)) \<Longrightarrow>
      (\<And>w1. before_deadline E t s w \<Longrightarrow>
         primary_retries E n p r 0 w = (None, w1) \<Longrightarrow>
         Q E n p t r s (sleep E check_interval (dismiss_popup E n w1)))
      \<Longrightarrow> Q E n p t r s w"
    and click: "\<And>E n t r w. S E n t r 0 w \<Longrightarrow> R E n t r w"
    and attempts: "\<And>E n t r a w.
      (a < retry_count \<Longrightarrow> P E n t r (stabilise_before_attempt E n a w)) \<Longrightarrow>
      (\<And>w2. a < retry_count \<Longrightarrow>
         wait_and_find_image E n t r (stabilise_before_attempt E n a w) = (Inr None, w2) \<Longrightarrow>
         S E n t r (a + 1) w2) \<Longrightarrow>
      (\<And>loc w2 w3. a < retry_count \<Longrightarrow>
         wait_and_find_image E n t r (stabilise_before_attempt E n a w) = (Inr (Some loc), w2) \<Longrightarrow>
         click_at E n loc w2 = (Raised, w3) \<Longrightarrow> a \<noteq> retry_count - 1 \<Longrightarrow>
         S E n t r (a + 1) w3)
      \<Longrightarrow> S E n t r a w"
  shows "P E0 n0 t0 r0 w0" and "Q E1 n1 p1 t1 r1 s1 w1" and "R E2 n2 t2 r2 w2"
    and "S E3 n3 t3 r3 a3 w3"
proof (induction E0 n0 t0 r0 w0 and E1 n1 p1 t1 r1 s1 w1 and E2 n2 t2 r2 w2 and E3 n3 t3 r3 a3 w3
    rule: wait_and_find_image_poll_loop_click_image_with_offset_click_attempts.induct)
  case (1 E n t r w)
  show ?case
  proof (rule wait)
    fix w1 assume "os_path_exists E (get_image_path E n) w = (True, w1)"
    then show "Q E n (get_image_path E n) (timeout_or_default t) r
           (clock (log E INFO (WaitingForImage n) w1)) (log E INFO (WaitingForImage n) w1)"
      using 1 [of True w1] by simp
  qed
next
  case (2 E n p t r s w)
  show ?case
  proof (rule poll)
    fix w1 loc w1a
    assume "before_deadline E t s w" "primary_retries E n p r 0 w = (None, w1)"
      "n \<noteq> ''7.png''"
      "locateCenterOnScreen E (get_image_path E ''7.png'') None w1 = (Found loc, w1a)"
    then show "R E ''7.png'' None None (log E INFO (PopupDetected loc) w1a)"
      using 2(1) [of None w1 "Found loc" w1a loc] by simp
  next
    fix w1
    assume "before_deadline E t s w" "primary_retries E n p r 0 w = (None, w1)"
    then show "Q E n p t r s (sleep E check_interval (dismiss_popup E n w1))"
      using 2(2) [of None w1, OF _ _ _ refl] by (simp add: dismiss_popup_def)
  qed
next
  case (3 E n t r w)
  then show ?case by (rule click)
next
  case (4 E n t r a w)
  show ?case
  proof (rule attempts)
    assume "a < retry_count"
    then show "P E n t r (stabilise_before_attempt E n a w)" using 4(1) by simp
  next
    fix w2
    assume "a < retry_count"
      "wait_and_find_image E n t r (stabilise_before_attempt E n a w) = (Inr None, w2)"
    then show "S E n t r (a + 1) w2"
      using 4(2) [of "Inr None" w2 None] by simp
  next
    fix loc w2 w3
    assume "a < retry_count"
      "wait_and_find_image E n t r (stabilise_before_attempt E n a w) = (Inr (Some loc), w2)"
      "click_at E n loc w2 = (Raised, w3)" "a \<noteq> retry_count - 1"
    then show "S E n t r (a + 1) w3"
      using 4(3) [of "Inr (Some loc)" w2 "Some loc" loc Raised w3] by simp
  qed
qed

section \<open>The calls a wait and a click make\<close>

lemma steps_by_iff:
  "steps_by A w w' \<longleftrightarrow>
     (\<exists>es. trace w' = trace w @ es \<and> list_all A es \<and> clipboard w' = clipboard w)"
proof
  assume s: "steps_by A w w'"
  then have "trace w' = trace w @ new_events w w'"
    unfolding steps_by_def new_events_def
    by (metis append_take_drop_id)
  with s show "\<exists>es. trace w' = trace w @ es \<and> list_all A es \<and> clipboard w' = clipboard w"
    unfolding steps_by_def by blast
next
  assume "\<exists>es. trace w' = trace w @ es \<and> list_all A es \<and> clipboard w' = clipboard w"
  then show "steps_by A w w'"
    by (auto simp: steps_by_def new_events_def)
qed

lemma steps_by_refl: "steps_by A w w"
  by (simp add: steps_by_def new_events_def)

lemma steps_by_trans: "steps_by A w w1 \<Longrightarrow> steps_by A w1 w2 \<Longrightarrow> steps_by A w w2"
  unfolding steps_by_iff by (elim exE conjE) (rule_tac x = "es @ esa" in exI, simp)

lemma steps_by_mono: "(\<And>e. A e \<Longrightarrow> B e) \<Longrightarrow> steps_by A w w' \<Longrightarrow> steps_by B w w'"
  unfolding steps_by_iff by (auto simp: list_all_iff)

lemma steps_by_emit: "A e \<Longrightarrow> steps_by A w (emit E e w)"
  unfolding steps_by_iff by simp

lemma steps_by_log: "A (Log l m) \<Longrightarrow> steps_by A w0 w \<Longrightarrow> steps_by A w0 (log E l m w)"
  by (rule steps_by_trans [where ?w1.0 = w]) (simp_all add: steps_by_iff)

lemma steps_by_sleep: "A (Sleep d) \<Longrightarrow> steps_by A w0 w \<Longrightarrow> steps_by A w0 (sleep E d w)"
  by (rule steps_by_trans [where ?w1.0 = w]) (simp_all add: steps_by_iff)

lemma steps_by_locate:
  "locateCenterOnScreen E p r w = (res, w') \<Longrightarrow> A (Locate p r res) \<Longrightarrow> steps_by A w0 w
     \<Longrightarrow> steps_by A w0 w'"
  by (rule steps_by_trans [where ?w1.0 = w])
    (auto simp: steps_by_iff locateCenterOnScreen_def Let_def)

lemma steps_by_exists:
  "os_path_exists E p w = (b, w') \<Longrightarrow> A (Exists p b) \<Longrightarrow> steps_by A w0 w \<Longrightarrow> steps_by A w0 w'"
  by (rule steps_by_trans [where ?w1.0 = w])
    (auto simp: steps_by_iff os_path_exists_def Let_def)

lemma steps_by_settle:
  "A (Sleep 500) \<Longrightarrow> A (Log INFO (LocateAttempt (i + 1) n)) \<Longrightarrow> steps_by A w0 w
     \<Longrightarrow> steps_by A w0 (settle_before_retry E n i w)"
  by (simp add: settle_before_retry_def steps_by_log steps_by_sleep)

lemma steps_by_locate_failed:
  "A (Log ERROR (LocateError n)) \<Longrightarrow> A (Log WARNING (LocateRetry (i + 1) n)) \<Longrightarrow> steps_by A w0 w
     \<Longrightarrow> steps_by A w0 (locate_failed E n i w)"
  by (simp add: locate_failed_def steps_by_log)

lemma steps_by_stabilise:
  "A (Sleep 1000) \<Longrightarrow> A (Log WARNING (ClickAttempt (a + 1) n)) \<Longrightarrow> steps_by A w0 w
     \<Longrightarrow> steps_by A w0 (stabilise_before_attempt E n a w)"
  by (simp add: stabilise_before_attempt_def steps_by_log steps_by_sleep)

lemma steps_by_click_at:
  assumes "click_at E n loc w = (res, w')" "\<And>v. A (RandInt (- 5) 5 v)" "\<And>x y r. A (Click x y r)"
    "\<And>c. A (Log INFO (ClickOk n c))" "A (Log ERROR (ClickError n))" "steps_by A w0 w"
  shows "steps_by A w0 w'"
  apply (rule steps_by_trans [OF assms(6)])
  using assms(1-5)
  by (auto simp: steps_by_iff click_at_def random_randint_def pyautogui_click_def Let_def
      split: prod.splits outcome.splits)

lemma steps_by_primary_retries:
  "primary_retries E n p r i w = (res, w') \<Longrightarrow> steps_by A w0 w \<Longrightarrow>
   (\<And>d. A (Sleep d)) \<Longrightarrow> (\<And>l m. wait_log E n m \<Longrightarrow> A (Log l m)) \<Longrightarrow>
   (\<And>res. A (Locate p r res))
     \<Longrightarrow> steps_by A w0 w'"
proof (induction E n p r i w arbitrary: res w' rule: primary_retries.induct)
  case (1 E n p r i w)
  note run = "1.prems"(1) and base = "1.prems"(2) and A = "1.prems"(3-5)
  show ?case
  proof (cases "i < retry_count")
    case False
    then show ?thesis using run base by (simp add: primary_retries.simps [of E n _ r i w])
  next
    case True
    let ?w1 = "settle_before_retry E n i w"
    obtain lres w2 where loc: "locateCenterOnScreen E p r ?w1 = (lres, w2)"
      by (cases "locateCenterOnScreen E p r ?w1")
    have s2: "steps_by A w0 w2"
      by (rule steps_by_locate [OF loc]) (simp_all add: A steps_by_settle base)
    note unfold = primary_retries.simps [of E n p r i w]
    show ?thesis
    proof (cases lres)
      case (Found c)
      then show ?thesis
        using True loc run s2 by (auto simp: unfold intro!: steps_by_log A)
    next
      case NotFound
      then show ?thesis
        using True loc run s2 "1.IH"(1) [OF True loc [symmetric] NotFound _ _ A]
        by (simp add: unfold)
    next
      case LocateRaised
      have "steps_by A w0 (locate_failed E n i w2)"
        by (rule steps_by_locate_failed) (simp_all add: A s2)
      then show ?thesis
        using True loc run LocateRaised
          "1.IH"(2) [OF True loc [symmetric] LocateRaised _ _ A]
        by (simp add: unfold)
    qed
  qed
qed

lemma wait_event_own: "wait_own E n e \<Longrightarrow> wait_event E n e"
  by (simp add: wait_event_def)

lemma click_event_own: "click_own E n e \<Longrightarrow> click_event E n e"
  by (simp add: click_event_def)

lemma click_own_wait_own: "wait_own E n e \<Longrightarrow> click_own E n e"
  by (cases e) simp_all

lemma click_event_wait_event: "wait_event E n e \<Longrightarrow> click_event E n e"
  by (auto simp: wait_event_def click_event_def click_own_wait_own)

lemma wait_event_popup:
  "n \<noteq> ''7.png'' \<Longrightarrow> click_event E ''7.png'' e \<Longrightarrow> wait_event E n e"
  by (cases e) (auto simp: wait_event_def click_event_def elim: popup_event.elims)

lemma alphabet:
  "steps_by (wait_event E n) w (snd (wait_and_find_image E n t r w))"
  "p = get_image_path E n \<longrightarrow> steps_by (wait_event E n) w (snd (poll_loop E n p ti r s w))"
  "steps_by (click_event E n) w (snd (click_image_with_offset E n t r w))"
  "steps_by (click_event E n) w (snd (click_attempts E n t r a w))"
proof (induction E n t r w and E n p ti r s w and E n t r w and E n t r a w
    rule: automation_induct)
  case (wait E n t r w)
  obtain b w1 where ex: "os_path_exists E (get_image_path E n) w = (b, w1)"
    by (cases "os_path_exists E (get_image_path E n) w")
  have s1: "steps_by (wait_event E n) w w1"
    by (rule steps_by_exists [OF ex]) (simp_all add: wait_event_def steps_by_refl)
  show ?case
  proof (cases b)
    case False
    have "steps_by (wait_event E n) w (log E ERROR (ImageFileMissing (get_image_path E n)) w1)"
      by (rule steps_by_log [OF _ s1]) (simp add: wait_event_def)
    then show ?thesis
      using ex False by (simp add: wait_and_find_image.simps)
  next
    case True
    have s2: "steps_by (wait_event E n) w (log E INFO (WaitingForImage n) w1)"
      by (rule steps_by_log) (simp_all add: wait_event_def s1)
    show ?thesis
      using ex True wait [of w1] steps_by_trans [OF s2]
      by (simp add: wait_and_find_image.simps)
  qed
next
  case (poll E n p ti r s w)
  show ?case
  proof (intro impI)
    assume p: "p = get_image_path E n"
    show "steps_by (wait_event E n) w (snd (poll_loop E n p ti r s w))"
    proof (cases "before_deadline E ti s w")
      case False
      have "steps_by (wait_event E n) w (log E WARNING (WaitTimeout n) w)"
        by (rule steps_by_log [OF _ steps_by_refl]) (simp add: wait_event_def)
      then show ?thesis
        using False by (simp add: poll_loop_step [of E n p ti r s w])
    next
      case deadline: True
      obtain res w1 where pr: "primary_retries E n p r 0 w = (res, w1)"
        by (cases "primary_retries E n p r 0 w")
      have s1: "steps_by (wait_event E n) w w1"
        by (rule steps_by_primary_retries [OF pr steps_by_refl])
          (simp_all add: wait_event_def p)
      show ?thesis
      proof (cases res)
        case (Some loc)
        then show ?thesis using deadline pr s1 by (simp add: poll_loop_step [of E n p ti r s w])
      next
        case None
        have s2: "steps_by (wait_event E n) w (dismiss_popup E n w1)"
        proof (cases "n = ''7.png''")
          case True
          then show ?thesis using s1 by (simp add: dismiss_popup_def)
        next
          case False
          obtain pres w1a where sc:
            "locateCenterOnScreen E (get_image_path E ''7.png'') None w1 = (pres, w1a)"
            by (cases "locateCenterOnScreen E (get_image_path E ''7.png'') None w1")
          have s1a: "steps_by (wait_event E n) w w1a"
            by (rule steps_by_locate [OF sc]) (simp_all add: wait_event_def False s1)
          show ?thesis
          proof (cases pres)
            case (Found loc)
            have "steps_by (click_event E ''7.png'') (log E INFO (PopupDetected loc) w1a)
                    (snd (click_image_with_offset E ''7.png'' None None
                      (log E INFO (PopupDetected loc) w1a)))"
              using poll(1) [OF deadline _ False] pr None sc Found by simp
            then have "steps_by (wait_event E n) (log E INFO (PopupDetected loc) w1a)
                    (snd (click_image_with_offset E ''7.png'' None None
                      (log E INFO (PopupDetected loc) w1a)))"
              by (rule steps_by_mono [rotated]) (rule wait_event_popup [OF False])
            moreover have "steps_by (wait_event E n) w (log E INFO (PopupDetected loc) w1a)"
              by (rule steps_by_log) (simp_all add: wait_event_def False s1a)
            ultimately show ?thesis
              using False sc Found by (simp add: dismiss_popup_def steps_by_trans)
          qed (use False sc s1a in \<open>simp_all add: dismiss_popup_def\<close>)
        qed
        have s3: "steps_by (wait_event E n) w (sleep E check_interval (dismiss_popup E n w1))"
          by (rule steps_by_sleep) (simp_all add: wait_event_def s2)
        have eq: "poll_loop E n p ti r s w =
                    poll_loop E n p ti r s (sleep E check_interval (dismiss_popup E n w1))"
          using deadline pr None by (simp add: poll_loop_step [of E n p ti r s w])
        have "steps_by (wait_event E n) (sleep E check_interval (dismiss_popup E n w1))
                (snd (poll_loop E n p ti r s (sleep E check_interval (dismiss_popup E n w1))))"
          using poll(2) [OF deadline] pr None p by simp
        with s3 show ?thesis
          unfolding eq by (rule steps_by_trans)
      qed
    qed
  qed
next
  case (click E n t r w)
  then show ?case by (simp add: click_image_with_offset.simps)
next
  case (attempts E n t r a w)
  note unfold = click_attempts.simps [of E n t r a w]
  show ?case
  proof (cases "a < retry_count")
    case False
    have "steps_by (click_event E n) w (log E ERROR (ClickGiveUp n) w)"
      by (rule steps_by_log [OF _ steps_by_refl]) (simp add: click_event_def)
    then show ?thesis
      using False by (simp add: unfold)
  next
    case True
    let ?w1 = "stabilise_before_attempt E n a w"
    obtain res w2 where wt: "wait_and_find_image E n t r ?w1 = (res, w2)"
      by (cases "wait_and_find_image E n t r ?w1")
    have s1: "steps_by (click_event E n) w ?w1"
      by (rule steps_by_stabilise) (simp_all add: click_event_def steps_by_refl)
    have "steps_by (click_event E n) ?w1 w2"
      using attempts(1) [OF True] wt
      by (auto intro: steps_by_mono [rotated] click_event_wait_event)
    with s1 have s2: "steps_by (click_event E n) w w2"
      by (rule steps_by_trans)
    show ?thesis
    proof (cases res)
      case (Inl e)
      then show ?thesis using True wt s2 by (simp add: unfold)
    next
      case (Inr found)
      show ?thesis
      proof (cases found)
        case None
        then show ?thesis
          using True wt Inr s2 attempts(2) [OF True, of w2] by (simp add: unfold steps_by_trans)
      next
        case (Some loc)
        obtain cres w3 where ca: "click_at E n loc w2 = (cres, w3)"
          by (cases "click_at E n loc w2")
        have s3: "steps_by (click_event E n) w w3"
          by (rule steps_by_click_at [OF ca]) (simp_all add: click_event_def s2)
        have eq: "click_attempts E n t r a w =
                    (case cres of Done \<Rightarrow> (Inr True, w3)
                     | Raised \<Rightarrow> if a = retry_count - 1 then (Inr False, w3)
                         else click_attempts E n t r (a + 1) w3)"
          using True wt Inr Some ca by (simp add: unfold)
        show ?thesis
        proof (cases cres)
          case Done
          then show ?thesis using s3 by (simp add: eq)
        next
          case Raised
          show ?thesis
          proof (cases "a = retry_count - 1")
            case last: True
            show ?thesis unfolding eq using last Raised s3 by simp
          next
            case False
            show ?thesis
              unfolding eq
              using False Raised s3 attempts(3) [OF True _ _ False, of loc w2 w3] wt Inr Some ca
              by (simp add: steps_by_trans)
          qed
        qed
      qed
    qed
  qed
qed


text \<open>Neither method lets an exception out, and a location returned was matched last.\<close>

lemma never_raises:
  "\<exists>v. fst (wait_and_find_image E n t r w) = Inr v"
  "\<exists>v. fst (poll_loop E n p ti r s w) = Inr v"
  "\<exists>b. fst (click_image_with_offset E n t r w) = Inr b"
  "\<exists>b. fst (click_attempts E n t r a w) = Inr b"
proof (induction E n t r w and E n p ti r s w and E n t r w and E n t r a w
    rule: automation_induct)
  case (wait E n t r w)
  obtain b w1 where ex: "os_path_exists E (get_image_path E n) w = (b, w1)"
    by (cases "os_path_exists E (get_image_path E n) w")
  show ?case
    using ex wait [of w1] by (cases b) (simp_all add: wait_and_find_image.simps)
next
  case (poll E n p ti r s w)
  obtain res w1 where pr: "primary_retries E n p r 0 w = (res, w1)"
    by (cases "primary_retries E n p r 0 w")
  show ?case
    using pr poll(2) [of w1]
    by (cases res) (simp_all add: poll_loop_step [of E n p ti r s w])
next
  case (click E n t r w)
  then show ?case by (simp add: click_image_with_offset.simps)
next
  case (attempts E n t r a w)
  note unfold = click_attempts.simps [of E n t r a w]
  show ?case
  proof (cases "a < retry_count")
    case False
    then show ?thesis by (auto simp: unfold)
  next
    case True
    let ?w1 = "stabilise_before_attempt E n a w"
    obtain res w2 where wt: "wait_and_find_image E n t r ?w1 = (res, w2)"
      by (cases "wait_and_find_image E n t r ?w1")
    from attempts(1) [OF True] wt obtain found where res: "res = Inr found" by auto
    show ?thesis
    proof (cases found)
      case None
      then show ?thesis
        using True wt res attempts(2) [OF True, of w2] by (simp add: unfold)
    next
      case (Some loc)
      obtain cres w3 where ca: "click_at E n loc w2 = (cres, w3)"
        by (cases "click_at E n loc w2")
      show ?thesis
        using True wt res Some ca attempts(3) [OF True _ _, of loc w2 w3]
        by (cases cres) (auto simp: unfold)
    qed
  qed
qed

lemma primary_retries_found:
  "primary_retries E n p r i w = (Some loc, w') \<Longrightarrow>
     \<exists>pre. trace w' = pre @ [Locate p r (Found loc), Log INFO (FoundImage n loc)]"
proof (induction E n p r i w rule: primary_retries.induct)
  case (1 E n p r i w)
  note unfold = primary_retries.simps [of E n p r i w]
  show ?case
  proof (cases "i < retry_count")
    case False
    then show ?thesis using "1.prems" by (simp add: unfold)
  next
    case True
    obtain lres w2 where
      loc: "locateCenterOnScreen E p r (settle_before_retry E n i w) = (lres, w2)"
      by (cases "locateCenterOnScreen E p r (settle_before_retry E n i w)")
    then have t2: "trace w2 = trace (settle_before_retry E n i w) @ [Locate p r lres]"
      by (auto simp: locateCenterOnScreen_def Let_def)
    show ?thesis
    proof (cases lres)
      case (Found c)
      then show ?thesis using True loc t2 "1.prems" by (auto simp: unfold)
    next
      case NotFound
      then show ?thesis
        using True loc "1.prems" "1.IH"(1) [OF True loc [symmetric] NotFound]
        by (simp add: unfold)
    next
      case LocateRaised
      then show ?thesis
        using True loc "1.prems" "1.IH"(2) [OF True loc [symmetric] LocateRaised]
        by (simp add: unfold)
    qed
  qed
qed

lemma found_is_last:
  "\<forall>loc w'. wait_and_find_image E n t r w = (Inr (Some loc), w') \<longrightarrow>
     (\<exists>pre. trace w' = pre @ [Locate (get_image_path E n) r (Found loc),
                               Log INFO (FoundImage n loc)])"
  "\<forall>loc w'. poll_loop E n p ti r s w = (Inr (Some loc), w') \<longrightarrow>
     (\<exists>pre. trace w' = pre @ [Locate p r (Found loc), Log INFO (FoundImage n loc)])"
  "click_image_with_offset E n t r w = click_image_with_offset E n t r w"
  "click_attempts E n t r a w = click_attempts E n t r a w"
proof (induction E n t r w and E n p ti r s w and E n t r w and E n t r a w
    rule: automation_induct)
  case (wait E n t r w)
  obtain b w1 where ex: "os_path_exists E (get_image_path E n) w = (b, w1)"
    by (cases "os_path_exists E (get_image_path E n) w")
  show ?case
    using ex wait [of w1] by (cases b) (simp_all add: wait_and_find_image.simps)
next
  case (poll E n p ti r s w)
  obtain res w1 where pr: "primary_retries E n p r 0 w = (res, w1)"
    by (cases "primary_retries E n p r 0 w")
  show ?case
    using pr poll(2) [of w1] primary_retries_found [of E n p r 0 w _ w1]
    by (cases res) (auto simp: poll_loop_step [of E n p ti r s w])
qed simp_all


section \<open>Runs that go one way\<close>

lemma wait_missing:
  "\<not> path_exists E (length (trace w)) (get_image_path E n) \<Longrightarrow>
     wait_and_find_image E n t r w =
       (Inr None, log E ERROR (ImageFileMissing (get_image_path E n))
                    (emit E (Exists (get_image_path E n) False) w))"
  by (simp add: wait_and_find_image.simps os_path_exists_def)

lemma click_missing:
  assumes "\<forall>k. \<not> path_exists E k (get_image_path E n)"
  shows "fst (click_image_with_offset E n t r w) = Inr False"
  using assms
  by (simp add: click_image_with_offset.simps click_attempts.simps wait_missing retry_count_def)

lemma primary_retries_first_found:
  "screen E (length (trace w)) p r = Found loc \<Longrightarrow>
     primary_retries E n p r 0 w =
       (Some loc, log E INFO (FoundImage n loc) (emit E (Locate p r (Found loc)) w))"
  by (simp add: primary_retries.simps retry_count_def settle_before_retry_def
      locateCenterOnScreen_def Let_def)

lemma wait_first_found:
  assumes "path_exists E (length (trace w)) (get_image_path E n)"
    and "screen E (length (trace w) + 2) (get_image_path E n) r = Found loc"
    and "0 < timeout_or_default t"
  shows "wait_and_find_image E n t r w =
       (Inr (Some loc),
        log E INFO (FoundImage n loc) (emit E (Locate (get_image_path E n) r (Found loc))
          (log E INFO (WaitingForImage n) (emit E (Exists (get_image_path E n) True) w))))"
  using assms
  by (simp add: wait_and_find_image.simps os_path_exists_def poll_loop_step
      primary_retries_first_found log_def before_deadline_def)

lemma click_first_found:
  assumes "\<forall>k. path_exists E k (get_image_path E n)"
    and "\<forall>k. screen E k (get_image_path E n) r = Found loc"
    and "\<forall>k. \<not> fails E k"
    and "0 < timeout_or_default t"
  shows "fst (click_image_with_offset E n t r w) = Inr True"
  using assms
  by (simp add: click_image_with_offset.simps click_attempts.simps [of E n t r 0]
      wait_first_found retry_count_def stabilise_before_attempt_def click_at_def
      pyautogui_click_def call_outcome_def Let_def split: prod.split)

section \<open>The deadline of a wait\<close>

lemma primary_retries_never:
  "never_matches E p \<Longrightarrow> fst (primary_retries E n p r i w) = None"
proof (induction E n p r i w rule: primary_retries.induct)
  case (1 E n p r i w)
  note unfold = primary_retries.simps [of E n p r i w]
  show ?case
  proof (cases "i < retry_count")
    case False
    then show ?thesis by (simp add: unfold)
  next
    case True
    obtain lres w2 where
      loc: "locateCenterOnScreen E p r (settle_before_retry E n i w) = (lres, w2)"
      by (cases "locateCenterOnScreen E p r (settle_before_retry E n i w)")
    then have nf: "\<And>c. lres \<noteq> Found c"
      using "1.prems" by (auto simp: locateCenterOnScreen_def Let_def never_matches_def)
    show ?thesis
    proof (cases lres)
      case (Found c)
      then show ?thesis using nf by simp
    next
      case NotFound
      then show ?thesis
        using True loc "1.IH"(1) [OF True loc [symmetric] NotFound "1.prems"]
        by (simp add: unfold)
    next
      case LocateRaised
      then show ?thesis
        using True loc "1.IH"(2) [OF True loc [symmetric] LocateRaised "1.prems"]
        by (simp add: unfold)
    qed
  qed
qed

lemma poll_never_matches:
  "wait_and_find_image E n t r w = wait_and_find_image E n t r w"
  "never_matches E p \<longrightarrow>
     fst (poll_loop E n p ti r s w) = Inr None
     \<and> ti * 1000 \<le> int (clock (snd (poll_loop E n p ti r s w))) - int s"
  "click_image_with_offset E n t r w = click_image_with_offset E n t r w"
  "click_attempts E n t r a w = click_attempts E n t r a w"
proof (induction E n t r w and E n p ti r s w and E n t r w and E n t r a w
    rule: automation_induct)
  case (poll E n p ti r s w)
  show ?case
  proof
    assume nm: "never_matches E p"
    show "fst (poll_loop E n p ti r s w) = Inr None
       \<and> ti * 1000 \<le> int (clock (snd (poll_loop E n p ti r s w))) - int s"
    proof (cases "before_deadline E ti s w")
      case False
      then show ?thesis
        using clock_log [of w E WARNING "WaitTimeout n"] after_deadline [OF False]
        by (simp add: poll_loop_step [of E n p ti r s w])
    next
      case True
      obtain res w1 where pr: "primary_retries E n p r 0 w = (res, w1)"
        by (cases "primary_retries E n p r 0 w")
      with primary_retries_never [OF nm, of n r 0 w] have res: "res = None" by simp
      show ?thesis
        using True pr res nm poll(2) [OF True, of w1]
        by (simp add: poll_loop_step [of E n p ti r s w])
    qed
  qed
qed simp_all

lemma wait_never_matches:
  assumes ex: "path_exists E (length (trace w)) (get_image_path E n)"
    and nm: "never_matches E (get_image_path E n)"
  shows "fst (wait_and_find_image E n t r w) = Inr None"
    and "timeout_or_default t * 1000
           \<le> int (clock (snd (wait_and_find_image E n t r w))) - int (clock w)"
proof -
  let ?p = "get_image_path E n"
  let ?w2 = "log E INFO (WaitingForImage n) (emit E (Exists ?p True) w)"
  have eq: "wait_and_find_image E n t r w =
              poll_loop E n ?p (timeout_or_default t) r (clock ?w2) ?w2"
    using ex by (simp add: wait_and_find_image.simps os_path_exists_def)
  have le: "clock w \<le> clock ?w2"
    by (simp add: log_def emit_def)
  from poll_never_matches(2) [of E ?p n "timeout_or_default t" r "clock ?w2" ?w2] nm
  have *: "fst (poll_loop E n ?p (timeout_or_default t) r (clock ?w2) ?w2) = Inr None"
    "timeout_or_default t * 1000 \<le>
       int (clock (snd (poll_loop E n ?p (timeout_or_default t) r (clock ?w2) ?w2)))
         - int (clock ?w2)"
    by simp_all
  show "fst (wait_and_find_image E n t r w) = Inr None"
    using * by (simp add: eq)
  show "timeout_or_default t * 1000
           \<le> int (clock (snd (wait_and_find_image E n t r w))) - int (clock w)"
    using * le by (simp add: eq)
qed

lemma instantaneous_clock:
  assumes "instantaneous E"
  shows "clock (emit E e w) = clock w" "clock (log E l m w) = clock w"
    "clock (sleep E d w) = clock w + d"
    "clock (snd (locateCenterOnScreen E p r w)) = clock w"
  using assms
  by (simp_all add: instantaneous_def emit_def log_def sleep_def locateCenterOnScreen_def Let_def)

lemma primary_retries_clock:
  "instantaneous E \<Longrightarrow> never_matches E p \<Longrightarrow> i \<le> retry_count \<Longrightarrow>
     clock (snd (primary_retries E n p r i w)) = clock w + 500 * (retry_count - max i 1)"
proof (induction E n p r i w rule: primary_retries.induct)
  case (1 E n p r i w)
  note unfold = primary_retries.simps [of E n p r i w]
  note inst = instantaneous_clock [OF "1.prems"(1)]
  show ?case
  proof (cases "i < retry_count")
    case False
    then have "primary_retries E n p r i w = (None, w)" by (simp add: unfold)
    then show ?thesis using False "1.prems"(3) by simp
  next
    case True
    let ?w1 = "settle_before_retry E n i w"
    obtain lres w2 where loc: "locateCenterOnScreen E p r ?w1 = (lres, w2)"
      by (cases "locateCenterOnScreen E p r ?w1")
    then have nf: "\<And>c. lres \<noteq> Found c"
      using "1.prems" by (auto simp: locateCenterOnScreen_def Let_def never_matches_def)
    have c1: "clock ?w1 = clock w + (if i > 0 then 500 else 0)"
      by (simp add: settle_before_retry_def inst)
    have c2: "clock w2 = clock ?w1"
      using inst(4) [of p r ?w1] loc by simp
    have le: "i + 1 \<le> retry_count" using True by simp
    have arith: "(if i > 0 then 500 else 0) + 500 * (retry_count - max (i + 1) 1)
                   = 500 * (retry_count - max i 1)"
    proof -
      have "i = 0 \<or> i = 1 \<or> i = 2"
        using True by (auto simp: retry_count_def)
      then show ?thesis by (auto simp: retry_count_def)
    qed
    show ?thesis
    proof (cases lres)
      case (Found c)
      then show ?thesis using nf by simp
    next
      case NotFound
      then show ?thesis
        using True loc c1 c2 arith
          "1.IH"(1) [OF True loc [symmetric] NotFound "1.prems"(1,2) le]
        by (simp add: unfold)
    next
      case LocateRaised
      have c3: "clock (locate_failed E n i w2) = clock w2"
        by (simp add: locate_failed_def inst)
      show ?thesis
        using True loc c1 c2 c3 arith LocateRaised
          "1.IH"(2) [OF True loc [symmetric] LocateRaised "1.prems"(1,2) le]
        by (simp add: unfold)
    qed
  qed
qed

lemma dismiss_popup_clock:
  assumes "instantaneous E" "n = ''7.png'' \<or> never_matches E (get_image_path E ''7.png'')"
  shows "clock (dismiss_popup E n w) = clock w"
proof (cases "n = ''7.png''")
  case True
  then show ?thesis by (simp add: dismiss_popup_def)
next
  case False
  with assms(2) have nm: "never_matches E (get_image_path E ''7.png'')" by simp
  obtain pres w1 where sc: "locateCenterOnScreen E (get_image_path E ''7.png'') None w = (pres, w1)"
    by (cases "locateCenterOnScreen E (get_image_path E ''7.png'') None w")
  then have nf: "\<And>c. pres \<noteq> Found c"
    using nm by (auto simp: locateCenterOnScreen_def Let_def never_matches_def)
  have "clock w1 = clock w"
    using instantaneous_clock(4) [OF assms(1), of "get_image_path E ''7.png''" None w] sc
    by simp
  then show ?thesis
  proof (cases pres)
    case (Found c)
    then show ?thesis using nf by blast
  qed (use False sc \<open>clock w1 = clock w\<close> in \<open>simp_all add: dismiss_popup_def\<close>)
qed

lemma poll_round:
  assumes "instantaneous E" "never_matches E p"
    "n = ''7.png'' \<or> never_matches E (get_image_path E ''7.png'')"
    "before_deadline E ti s w"
  shows "\<exists>w3. clock w3 = clock w + 1500 \<and> poll_loop E n p ti r s w = poll_loop E n p ti r s w3"
proof -
  obtain res w1 where pr: "primary_retries E n p r 0 w = (res, w1)"
    by (cases "primary_retries E n p r 0 w")
  with primary_retries_never [OF assms(2), of n r 0 w] have res: "res = None" by simp
  have c1: "clock w1 = clock w + 1000"
    using primary_retries_clock [OF assms(1,2), of 0 n r w] pr by (simp add: retry_count_def)
  let ?w3 = "sleep E check_interval (dismiss_popup E n w1)"
  have "clock ?w3 = clock w + 1500"
    using c1 by (simp add: instantaneous_clock [OF assms(1)] dismiss_popup_clock [OF assms(1,3)]
        check_interval_def)
  moreover have "poll_loop E n p ti r s w = poll_loop E n p ti r s ?w3"
    using assms(4) pr res by (simp add: poll_loop_step [of E n p ti r s w])
  ultimately show ?thesis by blast
qed

lemma poll_exit:
  "\<not> before_deadline E ti s w \<Longrightarrow>
     poll_loop E n p ti r s w = (Inr None, log E WARNING (WaitTimeout n) w)"
  by (simp add: poll_loop_step [of E n p ti r s w])

lemma poll_upper:
  "wait_and_find_image E n t r w = wait_and_find_image E n t r w"
  "instantaneous E \<and> never_matches E p
     \<and> (n = ''7.png'' \<or> never_matches E (get_image_path E ''7.png''))
     \<and> int (clock w) - int s \<le> ti * 1000 + 1500
     \<longrightarrow> int (clock (snd (poll_loop E n p ti r s w))) - int s \<le> ti * 1000 + 1500"
  "click_image_with_offset E n t r w = click_image_with_offset E n t r w"
  "click_attempts E n t r a w = click_attempts E n t r a w"
proof (induction E n t r w and E n p ti r s w and E n t r w and E n t r a w
    rule: automation_induct)
  case (poll E n p ti r s w)
  show ?case
  proof (intro impI, elim conjE)
    assume inst: "instantaneous E" and nm: "never_matches E p"
      and pop: "n = ''7.png'' \<or> never_matches E (get_image_path E ''7.png'')"
      and bound: "int (clock w) - int s \<le> ti * 1000 + 1500"
    show "int (clock (snd (poll_loop E n p ti r s w))) - int s \<le> ti * 1000 + 1500"
    proof (cases "before_deadline E ti s w")
      case False
      then show ?thesis
        using bound by (simp add: poll_exit instantaneous_clock [OF inst])
    next
      case True
      obtain res w1 where pr: "primary_retries E n p r 0 w = (res, w1)"
        by (cases "primary_retries E n p r 0 w")
      with primary_retries_never [OF nm, of n r 0 w] have res: "res = None" by simp
      have c1: "clock w1 = clock w + 1000"
        using primary_retries_clock [OF inst nm, of 0 n r w] pr by (simp add: retry_count_def)
      let ?w3 = "sleep E check_interval (dismiss_popup E n w1)"
      have c3: "clock ?w3 = clock w + 1500"
        using c1 by (simp add: instantaneous_clock [OF inst] dismiss_popup_clock [OF inst pop]
            check_interval_def)
      have eq: "poll_loop E n p ti r s w = poll_loop E n p ti r s ?w3"
        using True pr res by (simp add: poll_loop_step [of E n p ti r s w])
      have "int (clock ?w3) - int s \<le> ti * 1000 + 1500"
        using before_deadline_le [OF True] c3 by simp
      then show ?thesis
        unfolding eq using poll(2) [OF True, of w1] pr res inst nm pop by simp
    qed
  qed
qed simp_all

lemma world0_fields:
  "clock world0 = 0" "rng world0 = 0" "clipboard world0 = []" "trace world0 = []"
  by (simp_all add: world0_def)

lemma nothing_shown_facts:
  "path_exists nothing_shown k p" "never_matches nothing_shown p" "instantaneous nothing_shown"
  "\<not> rounds_down nothing_shown k"
  by (simp_all add: nothing_shown_def env_of_def never_matches_def instantaneous_def)

lemma clock_rounds_down_facts:
  "path_exists clock_rounds_down k p" "never_matches clock_rounds_down p"
  "instantaneous clock_rounds_down" "rounds_down clock_rounds_down k"
  "get_image_path clock_rounds_down n = get_image_path nothing_shown n"
  by (simp_all add: clock_rounds_down_def nothing_shown_def env_of_def never_matches_def
      instantaneous_def get_image_path_def)

lemma nothing_shown_two_seconds:
  "clock (snd (wait_and_find_image nothing_shown ''1.png'' (Some 2) None world0)) = 3000"
proof -
  let ?E = nothing_shown
  let ?p = "get_image_path ?E ''1.png''"
  let ?w2 = "log ?E INFO (WaitingForImage ''1.png'') (emit ?E (Exists ?p True) world0)"
  note inst = nothing_shown_facts(3)
  have eq: "wait_and_find_image ?E ''1.png'' (Some 2) None world0 =
              poll_loop ?E ''1.png'' ?p 2 None (clock ?w2) ?w2"
    using nothing_shown_facts(1)
    by (simp add: wait_and_find_image.simps os_path_exists_def timeout_or_default_def)
  have c2: "clock ?w2 = 0"
    by (simp add: instantaneous_clock [OF inst] world0_fields)
  note round = poll_round [OF inst nothing_shown_facts(2), where n = "''1.png''"
      and s = "clock ?w2" and ti = 2 and r = None]
  have "before_deadline ?E 2 (clock ?w2) ?w2"
    by (simp add: before_deadline_def c2)
  from round [OF _ this]
  obtain w3 where w3: "clock w3 = 1500"
    "poll_loop ?E ''1.png'' ?p 2 None (clock ?w2) ?w2 = poll_loop ?E ''1.png'' ?p 2 None (clock ?w2) w3"
    using c2 nothing_shown_facts(2) by auto
  have "before_deadline ?E 2 (clock ?w2) w3"
    by (simp add: before_deadline_def c2 w3(1))
  from round [OF _ this]
  obtain w4 where w4: "clock w4 = 3000"
    "poll_loop ?E ''1.png'' ?p 2 None (clock ?w2) w3 = poll_loop ?E ''1.png'' ?p 2 None (clock ?w2) w4"
    using c2 w3(1) nothing_shown_facts(2) by auto
  have "wait_and_find_image ?E ''1.png'' (Some 2) None world0 =
          (Inr None, log ?E WARNING (WaitTimeout ''1.png'') w4)"
    unfolding eq w3(2) w4(2)
    by (rule poll_exit) (simp add: before_deadline_def c2 w4(1) nothing_shown_facts)
  then show ?thesis
    by (simp add: instantaneous_clock [OF inst] w4(1))
qed

lemma clock_rounds_down_three_seconds:
  "clock (snd (wait_and_find_image clock_rounds_down ''1.png'' (Some 3) None started_at_1004))
     = 5504"
proof -
  let ?E = clock_rounds_down
  let ?p = "get_image_path ?E ''1.png''"
  let ?w2 = "log ?E INFO (WaitingForImage ''1.png'') (emit ?E (Exists ?p True) started_at_1004)"
  note inst = clock_rounds_down_facts(3)
  have eq: "wait_and_find_image ?E ''1.png'' (Some 3) None started_at_1004 =
              poll_loop ?E ''1.png'' ?p 3 None (clock ?w2) ?w2"
    using clock_rounds_down_facts(1)
    by (simp add: wait_and_find_image.simps os_path_exists_def timeout_or_default_def)
  have c2: "clock ?w2 = 1004"
    by (simp add: instantaneous_clock [OF inst] started_at_1004_def)
  note round = poll_round [OF inst clock_rounds_down_facts(2), where n = "''1.png''"
      and s = "clock ?w2" and ti = 3 and r = None]
  have "before_deadline ?E 3 (clock ?w2) ?w2"
    by (simp add: before_deadline_def c2)
  from round [OF _ this]
  obtain w3 where w3: "clock w3 = 2504"
    "poll_loop ?E ''1.png'' ?p 3 None (clock ?w2) ?w2 = poll_loop ?E ''1.png'' ?p 3 None (clock ?w2) w3"
    using c2 clock_rounds_down_facts(2) by auto
  have "before_deadline ?E 3 (clock ?w2) w3"
    by (simp add: before_deadline_def c2 w3(1))
  from round [OF _ this]
  obtain w4 where w4: "clock w4 = 4004"
    "poll_loop ?E ''1.png'' ?p 3 None (clock ?w2) w3 = poll_loop ?E ''1.png'' ?p 3 None (clock ?w2) w4"
    using c2 w3(1) clock_rounds_down_facts(2) by auto
  have "before_deadline ?E 3 (clock ?w2) w4"
    by (simp add: before_deadline_def c2 w4(1) clock_rounds_down_facts(4))
  from round [OF _ this]
  obtain w5 where w5: "clock w5 = 5504"
    "poll_loop ?E ''1.png'' ?p 3 None (clock ?w2) w4 = poll_loop ?E ''1.png'' ?p 3 None (clock ?w2) w5"
    using c2 w4(1) clock_rounds_down_facts(2) by auto
  have "wait_and_find_image ?E ''1.png'' (Some 3) None started_at_1004 =
          (Inr None, log ?E WARNING (WaitTimeout ''1.png'') w5)"
    unfolding eq w3(2) w4(2) w5(2)
    by (rule poll_exit) (simp add: before_deadline_def c2 w5(1))
  then show ?thesis
    by (simp add: instantaneous_clock [OF inst] w5(1))
qed

text \<open>
  Claim C2, as the code has it. A wait for a template whose file exists and which is never
  matched returns \<^verbatim>\<open>None\<close>, not an exception, and not before the timeout has passed.
  It can return later than one \<open>check_interval\<close> after the timeout: a round of the poll
  loop holds the two settle delays of the retries as well. When no call takes time and no
  popup is matched, a round lasts 1500 ms, and the wait returns at most 1500 ms after the
  timeout. It returns exactly then when the clock rounds down at the deadline: with a
  timeout of three seconds and a start at 1.004 s the rounds start after 0, 1500 and
  3000 ms, the last because \<^verbatim>\<open>4.004 - 1.004 < 3\<close> in floating point.
\<close>

theorem wait_times_out_after_deadline:
  assumes "path_exists E (length (trace w)) (get_image_path E image_name)"
    and "never_matches E (get_image_path E image_name)"
  shows "fst (wait_and_find_image E image_name timeout region w) = Inr None
     \<and> timeout_or_default timeout * 1000
         \<le> int (clock (snd (wait_and_find_image E image_name timeout region w))) - int (clock w)
     \<and> (instantaneous E
          \<and> (image_name = ''7.png'' \<or> never_matches E (get_image_path E ''7.png''))
          \<and> 0 \<le> timeout_or_default timeout
        \<longrightarrow> int (clock (snd (wait_and_find_image E image_name timeout region w))) - int (clock w)
              \<le> timeout_or_default timeout * 1000 + 1500)
     \<and> int (clock (snd (wait_and_find_image clock_rounds_down ''1.png'' (Some 3) None
                          started_at_1004)))
           - int (clock started_at_1004) = 3 * 1000 + 1500"
proof (intro conjI impI)
  show "fst (wait_and_find_image E image_name timeout region w) = Inr None"
    using assms by (rule wait_never_matches(1))
  show "timeout_or_default timeout * 1000
         \<le> int (clock (snd (wait_and_find_image E image_name timeout region w))) - int (clock w)"
    using assms by (rule wait_never_matches(2))
next
  assume ideal: "instantaneous E
          \<and> (image_name = ''7.png'' \<or> never_matches E (get_image_path E ''7.png''))
          \<and> 0 \<le> timeout_or_default timeout"
  let ?p = "get_image_path E image_name"
  let ?w2 = "log E INFO (WaitingForImage image_name) (emit E (Exists ?p True) w)"
  have eq: "wait_and_find_image E image_name timeout region w =
              poll_loop E image_name ?p (timeout_or_default timeout) region (clock ?w2) ?w2"
    using assms(1) by (simp add: wait_and_find_image.simps os_path_exists_def)
  have c2: "clock ?w2 = clock w"
    using ideal by (simp add: instantaneous_clock)
  from poll_upper(2)
    [where E = E and p = ?p and n = image_name and w = ?w2 and s = "clock ?w2"
       and ti = "timeout_or_default timeout" and r = region] ideal assms(2)
  have "int (clock (snd (poll_loop E image_name ?p (timeout_or_default timeout) region
            (clock ?w2) ?w2))) - int (clock ?w2) \<le> timeout_or_default timeout * 1000 + 1500"
    by simp
  then show "int (clock (snd (wait_and_find_image E image_name timeout region w))) - int (clock w)
              \<le> timeout_or_default timeout * 1000 + 1500"
    by (simp add: eq c2)
next
  show "int (clock (snd (wait_and_find_image clock_rounds_down ''1.png'' (Some 3) None
                          started_at_1004)))
           - int (clock started_at_1004) = 3 * 1000 + 1500"
  proof -
    have "clock started_at_1004 = 1004" by (simp add: started_at_1004_def)
    then show ?thesis by (simp add: clock_rounds_down_three_seconds)
  qed
qed

text \<open>
  Claim C2 as it was stated fails: with a timeout of two seconds on a desktop that shows
  nothing, the wait returns after 3000 ms, more than 2000 ms plus \<open>check_interval\<close>.
\<close>

theorem wait_overshoots_poll_interval_counterexample:
  "path_exists nothing_shown (length (trace world0)) (get_image_path nothing_shown ''1.png'')
   \<and> never_matches nothing_shown (get_image_path nothing_shown ''1.png'')
   \<and> fst (wait_and_find_image nothing_shown ''1.png'' (Some 2) None world0) = Inr None
   \<and> clock (snd (wait_and_find_image nothing_shown ''1.png'' (Some 2) None world0))
        - clock world0 = 3000
   \<and> \<not> (clock (snd (wait_and_find_image nothing_shown ''1.png'' (Some 2) None world0))
          - clock world0 \<le> 2 * 1000 + check_interval)"
  using wait_never_matches(1) [where E = nothing_shown and w = world0 and n = "''1.png''"
      and t = "Some 2" and r = None, OF nothing_shown_facts(1,2)]
  by (simp add: nothing_shown_facts nothing_shown_two_seconds world0_fields check_interval_def)

theorem wait_times_out_after_deadline_witness:
  "path_exists nothing_shown (length (trace world0)) (get_image_path nothing_shown ''1.png'')
   \<and> never_matches nothing_shown (get_image_path nothing_shown ''1.png'')
   \<and> instantaneous nothing_shown
   \<and> never_matches nothing_shown (get_image_path nothing_shown ''7.png'')
   \<and> fst (wait_and_find_image nothing_shown ''1.png'' (Some 2) None world0) = Inr None
   \<and> 2000 \<le> int (clock (snd (wait_and_find_image nothing_shown ''1.png'' (Some 2) None world0)))
             - int (clock world0)
   \<and> int (clock (snd (wait_and_find_image nothing_shown ''1.png'' (Some 2) None world0)))
             - int (clock world0) \<le> 3500"
  using wait_times_out_after_deadline
    [where E = nothing_shown and w = world0 and image_name = "''1.png''"
      and timeout = "Some 2" and region = None, OF nothing_shown_facts(1,2)]
  by (simp add: nothing_shown_facts timeout_or_default_def world0_fields)


section \<open>The check for the popup\<close>
















lemma mod_eleven: "(k::nat) mod 11 \<le> 10"
  using mod_less_divisor [of 11 k] by simp

















section \<open>Where a click lands\<close>

lemma click_follows_match_append:
  assumes "i < length es"
  shows "click_follows_match (es @ es') i = click_follows_match es i"
proof -
  have "(es @ es') ! (i - k) = es ! (i - k)" for k
    using assms by (simp add: nth_append less_imp_diff_less)
  from this [of 0] this [of 1] this [of 2] this [of 3] this [of 4]
  show ?thesis
    by (simp add: click_follows_match_def)
qed

lemma cfm_iff:
  "clicks_follow_matches w w' \<longleftrightarrow>
     (\<exists>es. trace w' = trace w @ es \<and>
        (\<forall>i. length (trace w) \<le> i \<and> i < length (trace w') \<longrightarrow>
           click_follows_match (trace w') i))"
proof
  assume c: "clicks_follow_matches w w'"
  then have "trace w' = trace w @ drop (length (trace w)) (trace w')"
    unfolding clicks_follow_matches_def by (metis append_take_drop_id)
  with c show "\<exists>es. trace w' = trace w @ es \<and>
        (\<forall>i. length (trace w) \<le> i \<and> i < length (trace w') \<longrightarrow>
           click_follows_match (trace w') i)"
    unfolding clicks_follow_matches_def by blast
next
  assume "\<exists>es. trace w' = trace w @ es \<and>
        (\<forall>i. length (trace w) \<le> i \<and> i < length (trace w') \<longrightarrow>
           click_follows_match (trace w') i)"
  then show "clicks_follow_matches w w'"
    by (auto simp: clicks_follow_matches_def)
qed

lemma cfm_refl: "clicks_follow_matches w w"
  by (auto simp: clicks_follow_matches_def)

lemma cfm_trans:
  assumes "clicks_follow_matches w w1" "clicks_follow_matches w1 w2"
  shows "clicks_follow_matches w w2"
proof -
  from assms obtain es1 es2 where
    t1: "trace w1 = trace w @ es1" and t2: "trace w2 = trace w1 @ es2"
    and c1: "\<forall>i. length (trace w) \<le> i \<and> i < length (trace w1) \<longrightarrow>
               click_follows_match (trace w1) i"
    and c2: "\<forall>i. length (trace w1) \<le> i \<and> i < length (trace w2) \<longrightarrow>
               click_follows_match (trace w2) i"
    unfolding cfm_iff by blast
  have "click_follows_match (trace w2) i"
    if "length (trace w) \<le> i" "i < length (trace w2)" for i
  proof (cases "i < length (trace w1)")
    case True
    then show ?thesis
      using c1 that(1) by (simp add: t2 click_follows_match_append)
  next
    case False
    then show ?thesis using c2 that(2) by simp
  qed
  then show ?thesis
    unfolding cfm_iff using t1 t2 by auto
qed

lemma cfm_snoc:
  assumes "trace w' = trace w @ [e]" "\<And>x y outc. e \<noteq> Click x y outc"
  shows "clicks_follow_matches w w'"
  unfolding cfm_iff
proof (intro exI [of _ "[e]"] conjI allI impI)
  show "trace w' = trace w @ [e]" by (rule assms(1))
next
  fix i assume "length (trace w) \<le> i \<and> i < length (trace w')"
  then have "i = length (trace w)" using assms(1) by simp
  then show "click_follows_match (trace w') i"
    using assms by (simp add: click_follows_match_def)
qed

lemma cfm_log: "clicks_follow_matches w0 w \<Longrightarrow> clicks_follow_matches w0 (log E l m w)"
  by (erule cfm_trans) (rule cfm_snoc [where e = "Log l m"], simp_all)

lemma cfm_sleep: "clicks_follow_matches w0 w \<Longrightarrow> clicks_follow_matches w0 (sleep E d w)"
  by (erule cfm_trans) (rule cfm_snoc [where e = "Sleep d"], simp_all)

lemma cfm_locate:
  assumes "locateCenterOnScreen E p r w = (res, w')" "clicks_follow_matches w0 w"
  shows "clicks_follow_matches w0 w'"
proof (rule cfm_trans [OF assms(2)])
  show "clicks_follow_matches w w'"
    by (rule cfm_snoc [where e = "Locate p r res"])
      (use assms(1) in \<open>auto simp: locateCenterOnScreen_def Let_def\<close>)
qed

lemma cfm_exists:
  assumes "os_path_exists E p w = (b, w')" "clicks_follow_matches w0 w"
  shows "clicks_follow_matches w0 w'"
proof (rule cfm_trans [OF assms(2)])
  show "clicks_follow_matches w w'"
    by (rule cfm_snoc [where e = "Exists p b"])
      (use assms(1) in \<open>auto simp: os_path_exists_def Let_def\<close>)
qed

lemma cfm_settle:
  "clicks_follow_matches w0 w \<Longrightarrow> clicks_follow_matches w0 (settle_before_retry E n i w)"
  by (simp add: settle_before_retry_def cfm_log cfm_sleep)

lemma cfm_locate_failed:
  "clicks_follow_matches w0 w \<Longrightarrow> clicks_follow_matches w0 (locate_failed E n i w)"
  by (simp add: locate_failed_def cfm_log)

lemma cfm_stabilise:
  "clicks_follow_matches w0 w \<Longrightarrow> clicks_follow_matches w0 (stabilise_before_attempt E n a w)"
  by (simp add: stabilise_before_attempt_def cfm_log cfm_sleep)

lemma cfm_primary_retries:
  "primary_retries E n p r i w = (res, w') \<Longrightarrow> clicks_follow_matches w0 w
     \<Longrightarrow> clicks_follow_matches w0 w'"
proof (induction E n p r i w arbitrary: res w' rule: primary_retries.induct)
  case (1 E n p r i w)
  note run = "1.prems"(1) and base = "1.prems"(2)
  note unfold = primary_retries.simps [of E n p r i w]
  show ?case
  proof (cases "i < retry_count")
    case False
    then show ?thesis using run base by (simp add: unfold)
  next
    case True
    let ?w1 = "settle_before_retry E n i w"
    obtain lres w2 where loc: "locateCenterOnScreen E p r ?w1 = (lres, w2)"
      by (cases "locateCenterOnScreen E p r ?w1")
    have s2: "clicks_follow_matches w0 w2"
      by (rule cfm_locate [OF loc]) (simp add: cfm_settle base)
    show ?thesis
    proof (cases lres)
      case (Found c)
      then show ?thesis
        using True loc run s2 by (auto simp: unfold intro: cfm_log)
    next
      case NotFound
      then show ?thesis
        using True loc run s2 "1.IH"(1) [OF True loc [symmetric] NotFound]
        by (simp add: unfold)
    next
      case LocateRaised
      then show ?thesis
        using True loc run cfm_locate_failed [OF s2]
          "1.IH"(2) [OF True loc [symmetric] LocateRaised]
        by (simp add: unfold)
    qed
  qed
qed

lemma click_at_trace:
  "\<exists>dx dy. - 5 \<le> dx \<and> dx \<le> 5 \<and> - 5 \<le> dy \<and> dy \<le> 5
     \<and> trace (snd (click_at E n (x, y) w)) =
         trace w @ [RandInt (- 5) 5 dx, RandInt (- 5) 5 dy,
                    Click (x + dx) (y + dy) (fst (click_at E n (x, y) w)),
                    (case fst (click_at E n (x, y) w) of
                       Done \<Rightarrow> Log INFO (ClickOk n (x + dx, y + dy))
                     | Raised \<Rightarrow> Log ERROR (ClickError n))]"
  apply (rule exI [of _ "- 5 + int (rand E (rng w) mod 11)"])
  apply (rule exI [of _ "- 5 + int (rand E (rng w + 1) mod 11)"])
  apply (simp add: click_at_def random_randint_def pyautogui_click_def Let_def mod_eleven
      split: outcome.split)
  done

lemma cfm_click_at:
  assumes "trace w = pre @ [Locate p r (Found loc), Log INFO (FoundImage m loc)]"
  shows "clicks_follow_matches w (snd (click_at E n loc w))"
proof -
  obtain x y where loc: "loc = (x, y)" by (cases loc)
  from click_at_trace [of E n x y w] obtain dx dy where
    b: "- 5 \<le> dx" "dx \<le> 5" "- 5 \<le> dy" "dy \<le> 5"
    and t: "trace (snd (click_at E n (x, y) w)) =
         trace w @ [RandInt (- 5) 5 dx, RandInt (- 5) 5 dy,
                    Click (x + dx) (y + dy) (fst (click_at E n (x, y) w)),
                    (case fst (click_at E n (x, y) w) of
                       Done \<Rightarrow> Log INFO (ClickOk n (x + dx, y + dy))
                     | Raised \<Rightarrow> Log ERROR (ClickError n))]"
    by blast
  let ?es = "trace (snd (click_at E n (x, y) w))"
  have len: "length (trace w) = length pre + 2" using assms by simp
  have "click_follows_match ?es i" if "length (trace w) \<le> i" "i < length ?es" for i
  proof -
    from that t len have "i = length pre + 2 \<or> i = length pre + 3 \<or> i = length pre + 4
        \<or> i = length pre + 5" by auto
    then show ?thesis
    proof (elim disjE)
      assume "i = length pre + 4"
      then show ?thesis
        using b by (simp add: click_follows_match_def t assms loc nth_append)
    qed (simp_all add: click_follows_match_def t assms loc nth_append split: outcome.split)
  qed
  then show ?thesis
    unfolding cfm_iff loc using t by auto
qed

lemma cfm_dismiss_popup:
  assumes "\<And>loc w1. clicks_follow_matches (log E INFO (PopupDetected loc) w1)
             (snd (click_image_with_offset E ''7.png'' None None
                     (log E INFO (PopupDetected loc) w1)))"
  shows "clicks_follow_matches w (dismiss_popup E n w)"
proof (cases "n = ''7.png''")
  case True
  then show ?thesis by (simp add: dismiss_popup_def cfm_refl)
next
  case False
  obtain pres w1 where sc:
    "locateCenterOnScreen E (get_image_path E ''7.png'') None w = (pres, w1)"
    by (cases "locateCenterOnScreen E (get_image_path E ''7.png'') None w")
  have s1: "clicks_follow_matches w w1"
    by (rule cfm_locate [OF sc cfm_refl])
  show ?thesis
  proof (cases pres)
    case (Found loc)
    have "clicks_follow_matches w (log E INFO (PopupDetected loc) w1)"
      using s1 by (rule cfm_log)
    then have "clicks_follow_matches w (snd (click_image_with_offset E ''7.png'' None None
                     (log E INFO (PopupDetected loc) w1)))"
      using assms by (rule cfm_trans)
    then show ?thesis
      using False sc Found by (simp add: dismiss_popup_def)
  qed (use False sc s1 in \<open>simp_all add: dismiss_popup_def\<close>)
qed

lemma clicks_follow_matches_all:
  "clicks_follow_matches w (snd (wait_and_find_image E n t r w))"
  "clicks_follow_matches w (snd (poll_loop E n p ti r s w))"
  "clicks_follow_matches w (snd (click_image_with_offset E n t r w))"
  "clicks_follow_matches w (snd (click_attempts E n t r a w))"
proof (induction E n t r w and E n p ti r s w and E n t r w and E n t r a w
    rule: automation_induct)
  case (wait E n t r w)
  obtain b w1 where ex: "os_path_exists E (get_image_path E n) w = (b, w1)"
    by (cases "os_path_exists E (get_image_path E n) w")
  have s1: "clicks_follow_matches w w1"
    by (rule cfm_exists [OF ex cfm_refl])
  show ?case
  proof (cases b)
    case False
    then show ?thesis
      using ex cfm_log [OF s1] by (simp add: wait_and_find_image.simps)
  next
    case True
    have "clicks_follow_matches w (log E INFO (WaitingForImage n) w1)"
      using s1 by (rule cfm_log)
    then show ?thesis
      using ex True wait [of w1] by (simp add: wait_and_find_image.simps cfm_trans)
  qed
next
  case (poll E n p ti r s w)
  show ?case
  proof (cases "before_deadline E ti s w")
    case False
    then show ?thesis
      using cfm_log [OF cfm_refl] by (simp add: poll_loop_step [of E n p ti r s w])
  next
    case deadline: True
    obtain res w1 where pr: "primary_retries E n p r 0 w = (res, w1)"
      by (cases "primary_retries E n p r 0 w")
    have s1: "clicks_follow_matches w w1"
      by (rule cfm_primary_retries [OF pr cfm_refl])
    show ?thesis
    proof (cases res)
      case (Some loc)
      then show ?thesis using deadline pr s1 by (simp add: poll_loop_step [of E n p ti r s w])
    next
      case None
      have "clicks_follow_matches w1 (dismiss_popup E n w1)"
      proof (cases "n = ''7.png''")
        case True
        then show ?thesis by (simp add: dismiss_popup_def cfm_refl)
      next
        case False
        obtain pres w1a where sc:
          "locateCenterOnScreen E (get_image_path E ''7.png'') None w1 = (pres, w1a)"
          by (cases "locateCenterOnScreen E (get_image_path E ''7.png'') None w1")
        have s1a: "clicks_follow_matches w1 w1a"
          by (rule cfm_locate [OF sc cfm_refl])
        show ?thesis
        proof (cases pres)
          case (Found loc)
          have "clicks_follow_matches (log E INFO (PopupDetected loc) w1a)
                  (snd (click_image_with_offset E ''7.png'' None None
                     (log E INFO (PopupDetected loc) w1a)))"
            using poll(1) [OF deadline _ False] pr None sc Found by simp
          with cfm_log [OF s1a] have "clicks_follow_matches w1
                  (snd (click_image_with_offset E ''7.png'' None None
                     (log E INFO (PopupDetected loc) w1a)))"
            by (rule cfm_trans)
          then show ?thesis
            using False sc Found by (simp add: dismiss_popup_def)
        qed (use False sc s1a in \<open>simp_all add: dismiss_popup_def\<close>)
      qed
      with s1 have "clicks_follow_matches w (dismiss_popup E n w1)"
        by (rule cfm_trans)
      then have s3: "clicks_follow_matches w (sleep E check_interval (dismiss_popup E n w1))"
        by (rule cfm_sleep)
      have eq: "poll_loop E n p ti r s w =
                  poll_loop E n p ti r s (sleep E check_interval (dismiss_popup E n w1))"
        using deadline pr None by (simp add: poll_loop_step [of E n p ti r s w])
      show ?thesis
        unfolding eq using s3 poll(2) [OF deadline, of w1] pr None by (simp add: cfm_trans)
    qed
  qed
next
  case (click E n t r w)
  then show ?case by (simp add: click_image_with_offset.simps)
next
  case (attempts E n t r a w)
  note unfold = click_attempts.simps [of E n t r a w]
  show ?case
  proof (cases "a < retry_count")
    case False
    then show ?thesis using cfm_log [OF cfm_refl] by (simp add: unfold)
  next
    case True
    let ?w1 = "stabilise_before_attempt E n a w"
    obtain res w2 where wt: "wait_and_find_image E n t r ?w1 = (res, w2)"
      by (cases "wait_and_find_image E n t r ?w1")
    have "clicks_follow_matches ?w1 w2"
      using attempts(1) [OF True] wt by simp
    with cfm_stabilise [OF cfm_refl] have s2: "clicks_follow_matches w w2"
      by (rule cfm_trans)
    show ?thesis
    proof (cases res)
      case (Inl e)
      then show ?thesis using True wt s2 by (simp add: unfold)
    next
      case (Inr found)
      show ?thesis
      proof (cases found)
        case None
        then show ?thesis
          using True wt Inr s2 attempts(2) [OF True, of w2] by (simp add: unfold cfm_trans)
      next
        case (Some loc)
        obtain cres w3 where ca: "click_at E n loc w2 = (cres, w3)"
          by (cases "click_at E n loc w2")
        from found_is_last(1) [of E n t r ?w1] wt Inr Some obtain pre where
          "trace w2 = pre @ [Locate (get_image_path E n) r (Found loc),
                             Log INFO (FoundImage n loc)]"
          by auto
        from cfm_click_at [OF this, of E n] ca have "clicks_follow_matches w2 w3" by simp
        with s2 have s3: "clicks_follow_matches w w3" by (rule cfm_trans)
        have eq: "click_attempts E n t r a w =
                    (case cres of Done \<Rightarrow> (Inr True, w3)
                     | Raised \<Rightarrow> if a = retry_count - 1 then (Inr False, w3)
                         else click_attempts E n t r (a + 1) w3)"
          using True wt Inr Some ca by (simp add: unfold)
        show ?thesis
        proof (cases cres)
          case Done
          then show ?thesis using s3 by (simp add: eq)
        next
          case Raised
          show ?thesis
          proof (cases "a = retry_count - 1")
            case last: True
            show ?thesis unfolding eq using last Raised s3 by simp
          next
            case False
            show ?thesis
              unfolding eq
              using False Raised s3 attempts(3) [OF True _ _ False, of loc w2 w3] wt Inr Some ca
              by (simp add: cfm_trans)
          qed
        qed
      qed
    qed
  qed
qed

lemma click_first_found_trace:
  assumes "path_exists E (length (trace w)) (get_image_path E n)"
    and "screen E (length (trace w) + 2) (get_image_path E n) r = Found (x, y)"
    and "\<forall>k. \<not> fails E k"
    and "0 < timeout_or_default t"
  shows "trace (snd (click_image_with_offset E n t r w)) =
       trace w @
         [Exists (get_image_path E n) True, Log INFO (WaitingForImage n),
          Locate (get_image_path E n) r (Found (x, y)), Log INFO (FoundImage n (x, y)),
          RandInt (- 5) 5 (- 5 + int (rand E (rng w) mod 11)),
          RandInt (- 5) 5 (- 5 + int (rand E (rng w + 1) mod 11)),
          Click (x - 5 + int (rand E (rng w) mod 11)) (y - 5 + int (rand E (rng w + 1) mod 11))
            Done,
          Log INFO (ClickOk n (x - 5 + int (rand E (rng w) mod 11),
                               y - 5 + int (rand E (rng w + 1) mod 11)))]"
  using assms
  by (simp add: click_image_with_offset.simps click_attempts.simps [of E n t r 0]
      wait_first_found retry_count_def stabilise_before_attempt_def click_at_def
      random_randint_def pyautogui_click_def call_outcome_def Let_def)

lemma shown_at_100_200_trace:
  "trace (snd (click_image_with_offset (shown_at_100_200 d) ''1.png'' None None world0)) =
       [Exists ''images/1.png'' True, Log INFO (WaitingForImage ''1.png''),
        Locate ''images/1.png'' None (Found (100, 200)),
        Log INFO (FoundImage ''1.png'' (100, 200)),
        RandInt (- 5) 5 (- 5 + int (d 0 mod 11)),
        RandInt (- 5) 5 (- 5 + int (d 1 mod 11)),
        Click (100 - 5 + int (d 0 mod 11)) (200 - 5 + int (d 1 mod 11)) Done,
        Log INFO (ClickOk ''1.png'' (100 - 5 + int (d 0 mod 11), 200 - 5 + int (d 1 mod 11)))]"
  using click_first_found_trace [of "shown_at_100_200 d" world0 "''1.png''" None 100 200 None]
  by (simp add: shown_at_100_200_def env_of_def world0_fields get_image_path_def
      images_dir_def timeout_or_default_def max_wait_time_def)

text \<open>
  Claim C7. In a run of \<^verbatim>\<open>click_image_with_offset\<close> every click (that of a popup
  dismissed on the way as well) follows a match: it is at the centre just matched, moved
  by one draw from \<open>-5 .. 5\<close> on each axis. Both ends are reached: a random source that
  yields the least value clicks at \<open>(cx - 5, cy - 5)\<close>, one that yields the greatest at
  \<open>(cx + 5, cy + 5)\<close>.
\<close>

theorem click_offset_within_five_pixels:
  "clicks_follow_matches w (snd (click_image_with_offset E n t r w))
   \<and> new_events world0
       (snd (click_image_with_offset (shown_at_100_200 (\<lambda>k. 0)) ''1.png'' None None world0)) ! 6
       = Click (100 - 5) (200 - 5) Done
   \<and> new_events world0
       (snd (click_image_with_offset (shown_at_100_200 (\<lambda>k. 10)) ''1.png'' None None world0)) ! 6
       = Click (100 + 5) (200 + 5) Done"
proof (intro conjI)
  show "clicks_follow_matches w (snd (click_image_with_offset E n t r w))"
    by (rule clicks_follow_matches_all(3))
  note t = shown_at_100_200_trace
  show "new_events world0
       (snd (click_image_with_offset (shown_at_100_200 (\<lambda>k. 0)) ''1.png'' None None world0)) ! 6
       = Click (100 - 5) (200 - 5) Done"
    by (simp add: new_events_def t world0_fields)
  show "new_events world0
       (snd (click_image_with_offset (shown_at_100_200 (\<lambda>k. 10)) ''1.png'' None None world0)) ! 6
       = Click (100 + 5) (200 + 5) Done"
    by (simp add: new_events_def t world0_fields)
qed

theorem click_offset_within_five_pixels_witness:
  "length (trace world0) \<le> 6
   \<and> 6 < length (trace (snd (click_image_with_offset (shown_at_100_200 (\<lambda>k. 0)) ''1.png''
                                None None world0)))
   \<and> trace (snd (click_image_with_offset (shown_at_100_200 (\<lambda>k. 0)) ''1.png''
                   None None world0)) ! 6 = Click 95 195 Done
   \<and> trace (snd (click_image_with_offset (shown_at_100_200 (\<lambda>k. 0)) ''1.png''
                   None None world0)) ! 2 = Locate ''images/1.png'' None (Found (100, 200))
   \<and> click_follows_match
       (trace (snd (click_image_with_offset (shown_at_100_200 (\<lambda>k. 0)) ''1.png''
                      None None world0))) 6"
proof -
  let ?W = "snd (click_image_with_offset (shown_at_100_200 (\<lambda>k. 0)) ''1.png'' None None world0)"
  have "clicks_follow_matches world0 ?W"
    using click_offset_within_five_pixels [of world0 "shown_at_100_200 (\<lambda>k. 0)" "''1.png''"
        None None]
    by blast
  then have "\<forall>i. length (trace world0) \<le> i \<and> i < length (trace ?W) \<longrightarrow>
               click_follows_match (trace ?W) i"
    by (simp add: clicks_follow_matches_def)
  then have "length (trace world0) \<le> 6 \<and> 6 < length (trace ?W) \<longrightarrow>
               click_follows_match (trace ?W) 6"
    by blast
  moreover have "length (trace world0) \<le> 6" "6 < length (trace ?W)"
    "trace ?W ! 6 = Click 95 195 Done"
    "trace ?W ! 2 = Locate ''images/1.png'' None (Found (100, 200))"
    by (simp_all add: shown_at_100_200_trace world0_fields)
  ultimately show ?thesis by blast
qed


section \<open>The attempts of a click\<close>

lemma wait_event_no_attempt: "wait_event E n e \<Longrightarrow> \<not> attempt_log n e"
  by (cases "(n, e)" rule: attempt_log.cases) (auto simp: wait_event_def)

lemma quiet_no_attempt:
  "list_all (\<lambda>e. \<not> attempt_log n e) es \<Longrightarrow> filter (attempt_log n) es = []"
  by (induction es) auto

lemma delayed_quiet:
  assumes "list_all (\<lambda>e. \<not> attempt_log n e) es"
  shows "attempts_delayed E n es"
  using assms by (auto simp: attempts_delayed_def list_all_length)

lemma delayed_append:
  assumes "attempts_delayed E n xs" "attempts_delayed E n ys"
  shows "attempts_delayed E n (xs @ ys)"
  unfolding attempts_delayed_def
proof (intro allI impI)
  fix i assume i: "i < length (xs @ ys) \<and> attempt_log n ((xs @ ys) ! i)"
  show "Suc (Suc i) < length (xs @ ys) \<and> (xs @ ys) ! Suc i = Sleep 1000 \<and>
        (\<exists>b. (xs @ ys) ! Suc (Suc i) = Exists (get_image_path E n) b)"
  proof (cases "i < length xs")
    case True
    with i assms(1) have "Suc (Suc i) < length xs \<and> xs ! Suc i = Sleep 1000 \<and>
        (\<exists>b. xs ! Suc (Suc i) = Exists (get_image_path E n) b)"
      by (simp add: attempts_delayed_def nth_append)
    then show ?thesis by (simp add: nth_append)
  next
    case False
    with i have j: "i - length xs < length ys \<and> attempt_log n (ys ! (i - length xs))"
      by (auto simp: nth_append)
    from assms(2) [unfolded attempts_delayed_def, rule_format, OF j]
    have "Suc (Suc (i - length xs)) < length ys
        \<and> ys ! Suc (i - length xs) = Sleep 1000 \<and>
        (\<exists>b. ys ! Suc (Suc (i - length xs)) = Exists (get_image_path E n) b)" .
    with False show ?thesis
      by (auto simp: nth_append Suc_diff_le)
  qed
qed

lemma delayed_retry:
  assumes "list_all (\<lambda>e. \<not> attempt_log n e) rest"
  shows "attempts_delayed E n
           (Log WARNING (ClickAttempt k n) # Sleep 1000 # Exists (get_image_path E n) b # rest)"
  unfolding attempts_delayed_def
proof (intro allI impI)
  fix i
  assume i: "i < length (Log WARNING (ClickAttempt k n) # Sleep 1000
                # Exists (get_image_path E n) b # rest)
     \<and> attempt_log n
         ((Log WARNING (ClickAttempt k n) # Sleep 1000 # Exists (get_image_path E n) b # rest) ! i)"
  have "i = 0"
  proof (rule ccontr)
    assume "i \<noteq> 0"
    then obtain j where j: "i = Suc j" by (cases i) auto
    show False
    proof (cases j)
      case 0
      with i j show False by simp
    next
      case (Suc k1)
      show False
      proof (cases k1)
        case 0
        with i j Suc show False by simp
      next
        case (Suc k2)
        with i j \<open>j = Suc k1\<close> assms show False
          by (auto simp: list_all_length)
      qed
    qed
  qed
  then show "Suc (Suc i) < length (Log WARNING (ClickAttempt k n) # Sleep 1000
                # Exists (get_image_path E n) b # rest)
     \<and> (Log WARNING (ClickAttempt k n) # Sleep 1000 # Exists (get_image_path E n) b # rest)
          ! Suc i = Sleep 1000
     \<and> (\<exists>ba. (Log WARNING (ClickAttempt k n) # Sleep 1000 # Exists (get_image_path E n) b # rest)
          ! Suc (Suc i) = Exists (get_image_path E n) ba)"
    by simp
qed

text \<open>The events of one wait: they begin with the question for the file.\<close>

lemma wait_events:
  "\<exists>b rest. trace (snd (wait_and_find_image E n t r w)) =
       trace w @ Exists (get_image_path E n) b # rest
     \<and> list_all (\<lambda>e. \<not> attempt_log n e) (Exists (get_image_path E n) b # rest)"
proof -
  let ?p = "get_image_path E n"
  obtain b w1 where ex: "os_path_exists E ?p w = (b, w1)"
    by (cases "os_path_exists E ?p w")
  then have t1: "trace w1 = trace w @ [Exists ?p b]"
    by (auto simp: os_path_exists_def Let_def)
  have "\<exists>es. trace (snd (wait_and_find_image E n t r w)) = trace w1 @ es"
  proof (cases b)
    case False
    then show ?thesis using ex by (simp add: wait_and_find_image.simps)
  next
    case True
    let ?w2 = "log E INFO (WaitingForImage n) w1"
    from alphabet(2) [of ?p E n ?w2 "timeout_or_default t" r "clock ?w2"]
    obtain es where
      "trace (snd (poll_loop E n ?p (timeout_or_default t) r (clock ?w2) ?w2)) = trace ?w2 @ es"
      unfolding steps_by_iff by auto
    then show ?thesis using ex True by (simp add: wait_and_find_image.simps)
  qed
  then obtain es where t2: "trace (snd (wait_and_find_image E n t r w)) = trace w1 @ es" ..
  from alphabet(1) [of E n w t r] obtain es' where
    t3: "trace (snd (wait_and_find_image E n t r w)) = trace w @ es'"
    and q: "list_all (wait_event E n) es'"
    unfolding steps_by_iff by auto
  from t1 t2 t3 have es': "es' = Exists ?p b # es" by simp
  have "list_all (\<lambda>e. \<not> attempt_log n e) es'"
    using q by (auto simp: list_all_iff dest: wait_event_no_attempt)
  with t3 es' show ?thesis by auto
qed

lemma click_at_events:
  "\<exists>es. trace (snd (click_at E n loc w)) = trace w @ es
     \<and> list_all (\<lambda>e. \<not> attempt_log n e) es"
  by (cases loc)
    (simp add: click_at_def random_randint_def pyautogui_click_def Let_def
      split: prod.split outcome.split)

lemma stabilise_trace:
  "trace (stabilise_before_attempt E n a w) =
     trace w @ (if 0 < a then [Log WARNING (ClickAttempt (Suc a) n), Sleep 1000] else [])"
  by (simp add: stabilise_before_attempt_def)

lemma attempt_shape:
  assumes "list_all (\<lambda>e. \<not> attempt_log n e) body"
  shows "attempts_delayed E n
           ((if 0 < a then [Log WARNING (ClickAttempt (Suc a) n), Sleep 1000] else [])
              @ Exists (get_image_path E n) b # body)"
    and "filter (attempt_log n)
           ((if 0 < a then [Log WARNING (ClickAttempt (Suc a) n), Sleep 1000] else [])
              @ Exists (get_image_path E n) b # body) =
         (if 0 < a then [Log WARNING (ClickAttempt (Suc a) n)] else [])"
proof -
  show "attempts_delayed E n
           ((if 0 < a then [Log WARNING (ClickAttempt (Suc a) n), Sleep 1000] else [])
              @ Exists (get_image_path E n) b # body)"
  proof (cases "0 < a")
    case True
    then show ?thesis using delayed_retry [OF assms, of E "Suc a" b] by simp
  next
    case False
    then show ?thesis using assms by (simp add: delayed_quiet)
  qed
  show "filter (attempt_log n)
           ((if 0 < a then [Log WARNING (ClickAttempt (Suc a) n), Sleep 1000] else [])
              @ Exists (get_image_path E n) b # body) =
         (if 0 < a then [Log WARNING (ClickAttempt (Suc a) n)] else [])"
    using quiet_no_attempt [OF assms] by simp
qed

lemma attempt_lines_step:
  "a < m \<Longrightarrow>
   (if 0 < a then [Log WARNING (ClickAttempt (Suc a) n)] else [])
     @ map (\<lambda>k. Log WARNING (ClickAttempt (Suc k) n)) (filter (\<lambda>k. 0 < k) [Suc a..<m]) =
   map (\<lambda>k. Log WARNING (ClickAttempt (Suc k) n)) (filter (\<lambda>k. 0 < k) [a..<m])"
  by (simp add: upt_conv_Cons)

lemma attempts_shape:
  "wait_and_find_image E n t r w = wait_and_find_image E n t r w"
  "poll_loop E n p ti r s w = poll_loop E n p ti r s w"
  "\<exists>es m. trace (snd (click_image_with_offset E n t r w)) = trace w @ es
     \<and> attempts_delayed E n es \<and> m \<le> retry_count
     \<and> filter (attempt_log n) es =
         map (\<lambda>k. Log WARNING (ClickAttempt (Suc k) n)) (filter (\<lambda>k. 0 < k) [0..<m])"
  "\<exists>es m. trace (snd (click_attempts E n t r a w)) = trace w @ es
     \<and> attempts_delayed E n es \<and> a \<le> m \<and> m \<le> max a retry_count
     \<and> filter (attempt_log n) es =
         map (\<lambda>k. Log WARNING (ClickAttempt (Suc k) n)) (filter (\<lambda>k. 0 < k) [a..<m])"
proof (induction E n t r w and E n p ti r s w and E n t r w and E n t r a w
    rule: automation_induct)
  case (click E n t r w)
  then show ?case by (auto simp: click_image_with_offset.simps)
next
  case (attempts E n t r a w)
  note unfold = click_attempts.simps [of E n t r a w]
  let ?L = "\<lambda>k. Log WARNING (ClickAttempt (Suc k) n)"
  show ?case
  proof (cases "a < retry_count")
    case False
    have "attempts_delayed E n [Log ERROR (ClickGiveUp n)]"
      by (rule delayed_quiet) simp
    then show ?thesis
      using False
      by (intro exI [of _ "[Log ERROR (ClickGiveUp n)]"] exI [of _ a]) (simp add: unfold)
  next
    case True
    let ?w1 = "stabilise_before_attempt E n a w"
    let ?stab = "if 0 < a then [Log WARNING (ClickAttempt (Suc a) n), Sleep 1000] else []"
    let ?p = "get_image_path E n"
    obtain res w2 where wt: "wait_and_find_image E n t r ?w1 = (res, w2)"
      by (cases "wait_and_find_image E n t r ?w1")
    from wait_events [of E n t r ?w1] wt obtain b rest where
      t2: "trace w2 = trace w @ ?stab @ Exists ?p b # rest"
      and q2: "list_all (\<lambda>e. \<not> attempt_log n e) rest"
      by (auto simp: stabilise_trace)
    from never_raises(1) [of E n t r ?w1] wt obtain found where res: "res = Inr found"
      by auto
    \<comment> \<open>the run ends with this attempt, in a world whose trace is known\<close>
    have stop: ?thesis
      if "click_attempts E n t r a w = (v, w')"
        "trace w' = trace w @ ?stab @ Exists ?p b # body"
        "list_all (\<lambda>e. \<not> attempt_log n e) body" for v w' body
      using that True attempt_shape [OF that(3), where E = E and a = a and b = b]
      by (intro exI [of _ "?stab @ Exists ?p b # body"] exI [of _ "Suc a"])
        (simp del: append_assoc)
    \<comment> \<open>the run goes on with the next attempt\<close>
    have go: ?thesis
      if eq: "click_attempts E n t r a w = click_attempts E n t r (a + 1) u"
        and tu: "trace u = trace w @ ?stab @ Exists ?p b # body"
        and qb: "list_all (\<lambda>e. \<not> attempt_log n e) body"
        and ih: "\<exists>es m. trace (snd (click_attempts E n t r (a + 1) u)) = trace u @ es
           \<and> attempts_delayed E n es \<and> a + 1 \<le> m \<and> m \<le> max (a + 1) retry_count
           \<and> filter (attempt_log n) es = map ?L (filter (\<lambda>k. 0 < k) [a + 1..<m])" for u body
    proof -
      from ih obtain es m where
        t: "trace (snd (click_attempts E n t r (a + 1) u)) = trace u @ es"
        and d: "attempts_delayed E n es" and m: "a + 1 \<le> m" "m \<le> max (a + 1) retry_count"
        and f: "filter (attempt_log n) es = map ?L (filter (\<lambda>k. 0 < k) [a + 1..<m])"
        by blast
      let ?X = "?stab @ Exists ?p b # body"
      have "attempts_delayed E n (?X @ es)"
        using attempt_shape(1) [OF qb, where E = E and a = a and b = b] d by (rule delayed_append)
      moreover have "filter (attempt_log n) (?X @ es) = map ?L (filter (\<lambda>k. 0 < k) [a..<m])"
      proof -
        have lt: "a < m" using m(1) by simp
        have "filter (attempt_log n) (?X @ es) =
                filter (attempt_log n) ?X @ filter (attempt_log n) es"
          by (rule filter_append)
        also have "\<dots> = (if 0 < a then [Log WARNING (ClickAttempt (Suc a) n)] else [])
                        @ map ?L (filter (\<lambda>k. 0 < k) [Suc a..<m])"
        proof -
          have "filter (attempt_log n) es = map ?L (filter (\<lambda>k. 0 < k) [Suc a..<m])"
            using f by (simp only: Suc_eq_plus1 [symmetric])
          then show ?thesis
            by (simp only: attempt_shape(2) [OF qb, where E = E and a = a and b = b])
        qed
        also have "\<dots> = map ?L (filter (\<lambda>k. 0 < k) [a..<m])"
          by (rule attempt_lines_step [OF lt])
        finally show ?thesis .
      qed
      moreover have "trace (snd (click_attempts E n t r a w)) = trace w @ ?X @ es"
        using t tu by (simp add: eq)
      moreover have "a \<le> m" "m \<le> max a retry_count"
        using m True by simp_all
      ultimately show ?thesis by blast
    qed
    show ?thesis
    proof (cases found)
      case None
      have eq: "click_attempts E n t r a w = click_attempts E n t r (a + 1) w2"
        using True wt res None by (simp add: unfold)
      show ?thesis
        by (rule go [OF eq t2 q2]) (use attempts(2) [OF True, of w2] wt res None in simp)
    next
      case (Some loc)
      obtain cres w3 where ca: "click_at E n loc w2 = (cres, w3)"
        by (cases "click_at E n loc w2")
      from click_at_events [of E n loc w2] ca obtain ces where
        "trace w3 = trace w2 @ ces" and qc: "list_all (\<lambda>e. \<not> attempt_log n e) ces"
        by auto
      then have t3: "trace w3 = trace w @ ?stab @ Exists ?p b # (rest @ ces)"
        using t2 by simp
      have q3: "list_all (\<lambda>e. \<not> attempt_log n e) (rest @ ces)"
        using q2 qc by simp
      have eq: "click_attempts E n t r a w =
                  (case cres of Done \<Rightarrow> (Inr True, w3)
                   | Raised \<Rightarrow> if a = retry_count - 1 then (Inr False, w3)
                       else click_attempts E n t r (a + 1) w3)"
        using True wt res Some ca by (simp add: unfold)
      show ?thesis
      proof (cases cres)
        case Done
        show ?thesis by (rule stop [OF _ t3 q3]) (simp add: eq Done)
      next
        case Raised
        show ?thesis
        proof (cases "a = retry_count - 1")
          case last: True
          have "click_attempts E n t r a w = (Inr False, w3)"
            using eq Raised last by simp
          then show ?thesis by (rule stop [OF _ t3 q3])
        next
          case False
          have eq': "click_attempts E n t r a w = click_attempts E n t r (a + 1) w3"
            using eq Raised False by simp
          show ?thesis
            by (rule go [OF eq' t3 q3])
              (use attempts(3) [OF True _ _ False, of loc w2 w3] wt res Some ca Raised in simp)
        qed
      qed
    qed
  qed
qed simp_all


lemma true_after_click:
  "wait_and_find_image E n t r w = wait_and_find_image E n t r w"
  "poll_loop E n p ti r s w = poll_loop E n p ti r s w"
  "\<forall>w'. click_image_with_offset E n t r w = (Inr True, w') \<longrightarrow>
     (\<exists>pre x y dx dy. trace w' =
        pre @ [Locate (get_image_path E n) r (Found (x, y)), Log INFO (FoundImage n (x, y)),
               RandInt (- 5) 5 dx, RandInt (- 5) 5 dy, Click (x + dx) (y + dy) Done,
               Log INFO (ClickOk n (x + dx, y + dy))])"
  "\<forall>w'. click_attempts E n t r a w = (Inr True, w') \<longrightarrow>
     (\<exists>pre x y dx dy. trace w' =
        pre @ [Locate (get_image_path E n) r (Found (x, y)), Log INFO (FoundImage n (x, y)),
               RandInt (- 5) 5 dx, RandInt (- 5) 5 dy, Click (x + dx) (y + dy) Done,
               Log INFO (ClickOk n (x + dx, y + dy))])"
proof (induction E n t r w and E n p ti r s w and E n t r w and E n t r a w
    rule: automation_induct)
  case (click E n t r w)
  then show ?case by (simp add: click_image_with_offset.simps)
next
  case (attempts E n t r a w)
  note unfold = click_attempts.simps [of E n t r a w]
  show ?case
  proof (cases "a < retry_count")
    case False
    then show ?thesis by (simp add: unfold)
  next
    case True
    let ?w1 = "stabilise_before_attempt E n a w"
    obtain res w2 where wt: "wait_and_find_image E n t r ?w1 = (res, w2)"
      by (cases "wait_and_find_image E n t r ?w1")
    from never_raises(1) [of E n t r ?w1] wt obtain found where res: "res = Inr found"
      by auto
    show ?thesis
    proof (cases found)
      case None
      then show ?thesis
        using True wt res attempts(2) [OF True, of w2] by (simp add: unfold)
    next
      case (Some loc)
      obtain x y where loc: "loc = (x, y)" by (cases loc)
      obtain cres w3 where ca: "click_at E n (x, y) w2 = (cres, w3)"
        by (cases "click_at E n (x, y) w2")
      from found_is_last(1) [of E n t r ?w1] wt res Some loc obtain pre where
        t2: "trace w2 = pre @ [Locate (get_image_path E n) r (Found (x, y)),
                               Log INFO (FoundImage n (x, y))]"
        by auto
      from click_at_trace [of E n x y w2] ca obtain dx dy where
        t3: "trace w3 = trace w2 @ [RandInt (- 5) 5 dx, RandInt (- 5) 5 dy,
                    Click (x + dx) (y + dy) cres,
                    (case cres of Done \<Rightarrow> Log INFO (ClickOk n (x + dx, y + dy))
                     | Raised \<Rightarrow> Log ERROR (ClickError n))]"
        by auto
      have eq: "click_attempts E n t r a w =
                  (case cres of Done \<Rightarrow> (Inr True, w3)
                   | Raised \<Rightarrow> if a = retry_count - 1 then (Inr False, w3)
                       else click_attempts E n t r (a + 1) w3)"
        using True wt res Some loc ca by (simp add: unfold)
      show ?thesis
      proof (cases cres)
        case Done
        then show ?thesis using eq t2 t3 by auto
      next
        case Raised
        show ?thesis
        proof (cases "a = retry_count - 1")
          case last: True
          have "click_attempts E n t r a w = (Inr False, w3)"
            using eq Raised last by simp
          then show ?thesis by simp
        next
          case False
          have eq': "click_attempts E n t r a w = click_attempts E n t r (a + 1) w3"
            using eq Raised False by simp
          show ?thesis
            unfolding eq'
            using attempts(3) [OF True _ _ False, of loc w2 w3] wt res Some loc ca Raised
            by simp
        qed
      qed
    qed
  qed
qed simp_all

lemma final_attempt_raised:
  assumes "wait_and_find_image E n t r (stabilise_before_attempt E n (retry_count - 1) u)
             = (Inr (Some loc), u2)"
    and "click_at E n loc u2 = (Raised, u3)"
  shows "click_attempts E n t r (retry_count - 1) u = (Inr False, u3)"
proof -
  have "retry_count - 1 < retry_count" by (simp add: retry_count_def)
  then show ?thesis
    using assms by (subst click_attempts.simps) simp
qed

lemma attempt_lines_cases:
  assumes "m \<le> retry_count"
  shows "map (\<lambda>k. Log WARNING (ClickAttempt (Suc k) n)) (filter (\<lambda>k. 0 < k) [0..<m]) = []
     \<or> map (\<lambda>k. Log WARNING (ClickAttempt (Suc k) n)) (filter (\<lambda>k. 0 < k) [0..<m])
         = [Log WARNING (ClickAttempt 2 n)]
     \<or> map (\<lambda>k. Log WARNING (ClickAttempt (Suc k) n)) (filter (\<lambda>k. 0 < k) [0..<m])
         = [Log WARNING (ClickAttempt 2 n), Log WARNING (ClickAttempt 3 n)]"
proof -
  from assms have "m = 0 \<or> m = 1 \<or> m = 2 \<or> m = 3"
    by (auto simp: retry_count_def)
  then show ?thesis
    by (elim disjE) (simp_all add: numeral_2_eq_2 numeral_3_eq_3 upt_conv_Cons)
qed

lemma click_missing_trace:
  assumes "\<forall>k. \<not> path_exists E k (get_image_path E n)"
  shows "trace (snd (click_image_with_offset E n t r w)) =
     trace w @
       [Exists (get_image_path E n) False, Log ERROR (ImageFileMissing (get_image_path E n)),
        Log WARNING (ClickAttempt 2 n), Sleep 1000,
        Exists (get_image_path E n) False, Log ERROR (ImageFileMissing (get_image_path E n)),
        Log WARNING (ClickAttempt 3 n), Sleep 1000,
        Exists (get_image_path E n) False, Log ERROR (ImageFileMissing (get_image_path E n)),
        Log ERROR (ClickGiveUp n)]"
  using assms
  by (simp add: click_image_with_offset.simps click_attempts.simps wait_missing retry_count_def
      stabilise_before_attempt_def)

lemma template_3_missing_trace:
  "trace (snd (click_image_with_offset template_3_missing ''3.png'' None None world0)) =
       [Exists ''images/3.png'' False, Log ERROR (ImageFileMissing ''images/3.png''),
        Log WARNING (ClickAttempt 2 ''3.png''), Sleep 1000,
        Exists ''images/3.png'' False, Log ERROR (ImageFileMissing ''images/3.png''),
        Log WARNING (ClickAttempt 3 ''3.png''), Sleep 1000,
        Exists ''images/3.png'' False, Log ERROR (ImageFileMissing ''images/3.png''),
        Log ERROR (ClickGiveUp ''3.png'')]"
  using click_missing_trace [of template_3_missing "''3.png''" None None world0]
  by (simp add: template_3_missing_def env_of_def get_image_path_def images_dir_def world0_fields)

lemma clicks_raise_final_attempt:
  "wait_and_find_image clicks_raise ''1.png'' None None
       (stabilise_before_attempt clicks_raise ''1.png'' (retry_count - 1) world0) =
     (Inr (Some (100, 200)),
      \<lparr>clock = 1000, rng = 0, clipboard = [],
       trace = [Log WARNING (ClickAttempt 3 ''1.png''), Sleep 1000,
                Exists ''images/1.png'' True, Log INFO (WaitingForImage ''1.png''),
                Locate ''images/1.png'' None (Found (100, 200)),
                Log INFO (FoundImage ''1.png'' (100, 200))]\<rparr>)"
  "click_at clicks_raise ''1.png'' (100, 200)
      \<lparr>clock = 1000, rng = 0, clipboard = [],
       trace = [Log WARNING (ClickAttempt 3 ''1.png''), Sleep 1000,
                Exists ''images/1.png'' True, Log INFO (WaitingForImage ''1.png''),
                Locate ''images/1.png'' None (Found (100, 200)),
                Log INFO (FoundImage ''1.png'' (100, 200))]\<rparr> =
     (Raised,
      \<lparr>clock = 1000, rng = 2, clipboard = [],
       trace = [Log WARNING (ClickAttempt 3 ''1.png''), Sleep 1000,
                Exists ''images/1.png'' True, Log INFO (WaitingForImage ''1.png''),
                Locate ''images/1.png'' None (Found (100, 200)),
                Log INFO (FoundImage ''1.png'' (100, 200)),
                RandInt (- 5) 5 (- 5), RandInt (- 5) 5 (- 5), Click 95 195 Raised,
                Log ERROR (ClickError ''1.png'')]\<rparr>)"
proof -
  have pe: "path_exists clicks_raise k p" for k p
    by (simp add: clicks_raise_def env_of_def)
  have sc: "screen clicks_raise k p r = Found (100, 200)" for k p r
    by (simp add: clicks_raise_def env_of_def)
  have c: "cost clicks_raise k = 0" "fails clicks_raise k" "rand clicks_raise k = 0" for k
    by (simp_all add: clicks_raise_def env_of_def)
  have p: "get_image_path clicks_raise ''1.png'' = ''images/1.png''"
    by (simp add: get_image_path_def images_dir_def clicks_raise_def env_of_def)
  show "wait_and_find_image clicks_raise ''1.png'' None None
       (stabilise_before_attempt clicks_raise ''1.png'' (retry_count - 1) world0) =
     (Inr (Some (100, 200)),
      \<lparr>clock = 1000, rng = 0, clipboard = [],
       trace = [Log WARNING (ClickAttempt 3 ''1.png''), Sleep 1000,
                Exists ''images/1.png'' True, Log INFO (WaitingForImage ''1.png''),
                Locate ''images/1.png'' None (Found (100, 200)),
                Log INFO (FoundImage ''1.png'' (100, 200))]\<rparr>)"
    by (simp add: wait_first_found [where loc = "(100, 200)"] pe sc c p timeout_or_default_def
        max_wait_time_def stabilise_before_attempt_def retry_count_def world0_def
        log_def emit_def sleep_def Let_def)
  show "click_at clicks_raise ''1.png'' (100, 200)
      \<lparr>clock = 1000, rng = 0, clipboard = [],
       trace = [Log WARNING (ClickAttempt 3 ''1.png''), Sleep 1000,
                Exists ''images/1.png'' True, Log INFO (WaitingForImage ''1.png''),
                Locate ''images/1.png'' None (Found (100, 200)),
                Log INFO (FoundImage ''1.png'' (100, 200))]\<rparr> =
     (Raised,
      \<lparr>clock = 1000, rng = 2, clipboard = [],
       trace = [Log WARNING (ClickAttempt 3 ''1.png''), Sleep 1000,
                Exists ''images/1.png'' True, Log INFO (WaitingForImage ''1.png''),
                Locate ''images/1.png'' None (Found (100, 200)),
                Log INFO (FoundImage ''1.png'' (100, 200)),
                RandInt (- 5) 5 (- 5), RandInt (- 5) 5 (- 5), Click 95 195 Raised,
                Log ERROR (ClickError ''1.png'')]\<rparr>)"
    by (simp add: click_at_def random_randint_def pyautogui_click_def call_outcome_def
        log_def emit_def Let_def c)
qed


lemma click_starts_with_wait:
  "\<exists>b rest. trace (snd (click_image_with_offset E n t r w)) =
       trace w @ Exists (get_image_path E n) b # rest"
proof -
  let ?p = "get_image_path E n"
  have w0: "stabilise_before_attempt E n 0 w = w"
    by (simp add: stabilise_before_attempt_def)
  have lt: "0 < retry_count" by (simp add: retry_count_def)
  obtain res w2 where wt: "wait_and_find_image E n t r w = (res, w2)"
    by (cases "wait_and_find_image E n t r w")
  from wait_events [of E n t r w] wt obtain b rest where
    t2: "trace w2 = trace w @ Exists ?p b # rest"
    by auto
  from never_raises(1) [of E n t r w] wt obtain found where res: "res = Inr found"
    by auto
  have later: "\<exists>rest'. trace (snd (click_attempts E n t r 1 u)) = trace w @ Exists ?p b # rest'"
    if "trace u = trace w @ Exists ?p b # body" for u body
  proof -
    from alphabet(4) [of E n u t r 1] obtain es where
      "trace (snd (click_attempts E n t r 1 u)) = trace u @ es"
      unfolding steps_by_iff by auto
    with that show ?thesis by simp
  qed
  show ?thesis
  proof (cases found)
    case None
    then show ?thesis
      using lt wt res w0 later [OF t2]
      by (auto simp: click_image_with_offset.simps click_attempts.simps [of E n t r 0 w])
  next
    case (Some loc)
    obtain cres w3 where ca: "click_at E n loc w2 = (cres, w3)"
      by (cases "click_at E n loc w2")
    from click_at_events [of E n loc w2] ca obtain ces where
      "trace w3 = trace w2 @ ces"
      by auto
    then have t3: "trace w3 = trace w @ Exists ?p b # (rest @ ces)"
      using t2 by simp
    show ?thesis
      using lt wt res w0 Some ca t3 later [OF t3]
      by (cases cres)
        (auto simp: click_image_with_offset.simps click_attempts.simps [of E n t r 0 w]
          retry_count_def)
  qed
qed

text \<open>
  Claim C4. \<^verbatim>\<open>click_image_with_offset\<close> never raises. Its run begins with the wait of
  the first attempt; it announces at most two further attempts, the second and the third
  in this order, and each announcement is followed by a sleep of one second and then by
  the wait of that attempt. It returns \<^verbatim>\<open>True\<close> only at the end of a run whose last calls
  are a match of the image, the two draws, a click that went through at the place
  matched plus the draws, and its log line. When the click of the last attempt raises,
  the result is \<^verbatim>\<open>False\<close>, in the world the failed click left.
\<close>

theorem click_retries_are_bounded:
  "(\<exists>b. fst (click_image_with_offset E n t r w) = Inr b)
   \<and> (\<exists>b rest. new_events w (snd (click_image_with_offset E n t r w)) =
         Exists (get_image_path E n) b # rest)
   \<and> attempts_delayed E n (new_events w (snd (click_image_with_offset E n t r w)))
   \<and> (filter (attempt_log n) (new_events w (snd (click_image_with_offset E n t r w))) = []
      \<or> filter (attempt_log n) (new_events w (snd (click_image_with_offset E n t r w))) =
          [Log WARNING (ClickAttempt 2 n)]
      \<or> filter (attempt_log n) (new_events w (snd (click_image_with_offset E n t r w))) =
          [Log WARNING (ClickAttempt 2 n), Log WARNING (ClickAttempt 3 n)])
   \<and> (\<forall>w'. click_image_with_offset E n t r w = (Inr True, w') \<longrightarrow>
        (\<exists>pre x y dx dy. trace w' =
           pre @ [Locate (get_image_path E n) r (Found (x, y)), Log INFO (FoundImage n (x, y)),
                  RandInt (- 5) 5 dx, RandInt (- 5) 5 dy, Click (x + dx) (y + dy) Done,
                  Log INFO (ClickOk n (x + dx, y + dy))]))
   \<and> (\<forall>loc u u2 u3.
        wait_and_find_image E n t r (stabilise_before_attempt E n (retry_count - 1) u)
          = (Inr (Some loc), u2)
        \<and> click_at E n loc u2 = (Raised, u3) \<longrightarrow>
        click_attempts E n t r (retry_count - 1) u = (Inr False, u3))"
proof -
  let ?W = "snd (click_image_with_offset E n t r w)"
  from attempts_shape(3) [of E n t r w] obtain es m where
    t: "trace ?W = trace w @ es" and d: "attempts_delayed E n es" and m: "m \<le> retry_count"
    and f: "filter (attempt_log n) es =
         map (\<lambda>k. Log WARNING (ClickAttempt (Suc k) n)) (filter (\<lambda>k. 0 < k) [0..<m])"
    by blast
  have ne: "new_events w ?W = es"
    using t by (simp add: new_events_def)
  have c1: "\<exists>b. fst (click_image_with_offset E n t r w) = Inr b"
    by (rule never_raises(3))
  have c2: "\<exists>b rest. new_events w ?W = Exists (get_image_path E n) b # rest"
    using click_starts_with_wait [of E n t r w] by (auto simp: new_events_def)
  have c3: "attempts_delayed E n (new_events w ?W)"
    using d by (simp only: ne)
  have c4: "filter (attempt_log n) (new_events w ?W) = []
      \<or> filter (attempt_log n) (new_events w ?W) = [Log WARNING (ClickAttempt 2 n)]
      \<or> filter (attempt_log n) (new_events w ?W) =
          [Log WARNING (ClickAttempt 2 n), Log WARNING (ClickAttempt 3 n)]"
    using attempt_lines_cases [OF m, of n] by (simp only: ne f)
  have c5: "\<forall>w'. click_image_with_offset E n t r w = (Inr True, w') \<longrightarrow>
        (\<exists>pre x y dx dy. trace w' =
           pre @ [Locate (get_image_path E n) r (Found (x, y)), Log INFO (FoundImage n (x, y)),
                  RandInt (- 5) 5 dx, RandInt (- 5) 5 dy, Click (x + dx) (y + dy) Done,
                  Log INFO (ClickOk n (x + dx, y + dy))])"
    by (rule true_after_click(3))
  have c6: "\<forall>loc u u2 u3.
        wait_and_find_image E n t r (stabilise_before_attempt E n (retry_count - 1) u)
          = (Inr (Some loc), u2)
        \<and> click_at E n loc u2 = (Raised, u3) \<longrightarrow>
        click_attempts E n t r (retry_count - 1) u = (Inr False, u3)"
    using final_attempt_raised by blast
  from c1 c2 c3 c4 c5 c6 show ?thesis by (intro conjI)
qed


lemma shown_at_100_200_clicked:
  "fst (click_image_with_offset (shown_at_100_200 d) ''1.png'' None None world0) = Inr True"
  by (rule click_first_found [where loc = "(100, 200)"])
    (simp_all add: shown_at_100_200_def env_of_def timeout_or_default_def max_wait_time_def)

theorem click_retries_are_bounded_witness:
  "2 < length (new_events world0
         (snd (click_image_with_offset template_3_missing ''3.png'' None None world0)))
   \<and> attempt_log ''3.png'' (new_events world0
         (snd (click_image_with_offset template_3_missing ''3.png'' None None world0)) ! 2)
   \<and> Suc (Suc 2) < length (new_events world0
         (snd (click_image_with_offset template_3_missing ''3.png'' None None world0)))
   \<and> new_events world0
         (snd (click_image_with_offset template_3_missing ''3.png'' None None world0)) ! Suc 2
       = Sleep 1000
   \<and> (\<exists>b. new_events world0
         (snd (click_image_with_offset template_3_missing ''3.png'' None None world0))
           ! Suc (Suc 2)
       = Exists (get_image_path template_3_missing ''3.png'') b)
   \<and> click_image_with_offset (shown_at_100_200 (\<lambda>k. 0)) ''1.png'' None None world0 =
       (Inr True,
        snd (click_image_with_offset (shown_at_100_200 (\<lambda>k. 0)) ''1.png'' None None world0))
   \<and> (\<exists>pre x y dx dy.
         trace (snd (click_image_with_offset (shown_at_100_200 (\<lambda>k. 0)) ''1.png''
                       None None world0)) =
           pre @ [Locate (get_image_path (shown_at_100_200 (\<lambda>k. 0)) ''1.png'') None
                    (Found (x, y)),
                  Log INFO (FoundImage ''1.png'' (x, y)),
                  RandInt (- 5) 5 dx, RandInt (- 5) 5 dy, Click (x + dx) (y + dy) Done,
                  Log INFO (ClickOk ''1.png'' (x + dx, y + dy))])
   \<and> wait_and_find_image clicks_raise ''1.png'' None None
         (stabilise_before_attempt clicks_raise ''1.png'' (retry_count - 1) world0) =
       (Inr (Some (100, 200)),
        \<lparr>clock = 1000, rng = 0, clipboard = [],
         trace = [Log WARNING (ClickAttempt 3 ''1.png''), Sleep 1000,
                  Exists ''images/1.png'' True, Log INFO (WaitingForImage ''1.png''),
                  Locate ''images/1.png'' None (Found (100, 200)),
                  Log INFO (FoundImage ''1.png'' (100, 200))]\<rparr>)
   \<and> click_at clicks_raise ''1.png'' (100, 200)
        \<lparr>clock = 1000, rng = 0, clipboard = [],
         trace = [Log WARNING (ClickAttempt 3 ''1.png''), Sleep 1000,
                  Exists ''images/1.png'' True, Log INFO (WaitingForImage ''1.png''),
                  Locate ''images/1.png'' None (Found (100, 200)),
                  Log INFO (FoundImage ''1.png'' (100, 200))]\<rparr> =
       (Raised,
        \<lparr>clock = 1000, rng = 2, clipboard = [],
         trace = [Log WARNING (ClickAttempt 3 ''1.png''), Sleep 1000,
                  Exists ''images/1.png'' True, Log INFO (WaitingForImage ''1.png''),
                  Locate ''images/1.png'' None (Found (100, 200)),
                  Log INFO (FoundImage ''1.png'' (100, 200)),
                  RandInt (- 5) 5 (- 5), RandInt (- 5) 5 (- 5), Click 95 195 Raised,
                  Log ERROR (ClickError ''1.png'')]\<rparr>)
   \<and> click_attempts clicks_raise ''1.png'' None None (retry_count - 1) world0 =
       (Inr False,
        \<lparr>clock = 1000, rng = 2, clipboard = [],
         trace = [Log WARNING (ClickAttempt 3 ''1.png''), Sleep 1000,
                  Exists ''images/1.png'' True, Log INFO (WaitingForImage ''1.png''),
                  Locate ''images/1.png'' None (Found (100, 200)),
                  Log INFO (FoundImage ''1.png'' (100, 200)),
                  RandInt (- 5) 5 (- 5), RandInt (- 5) 5 (- 5), Click 95 195 Raised,
                  Log ERROR (ClickError ''1.png'')]\<rparr>)"
proof -
  let ?es = "new_events world0
         (snd (click_image_with_offset template_3_missing ''3.png'' None None world0))"
  let ?W1 = "snd (click_image_with_offset (shown_at_100_200 (\<lambda>k. 0)) ''1.png''
                    None None world0)"
  note missing = click_retries_are_bounded [of template_3_missing "''3.png''" None None world0]
  note shown = click_retries_are_bounded [of "shown_at_100_200 (\<lambda>k. 0)" "''1.png''"
      None None world0]
  note raised = click_retries_are_bounded [of clicks_raise "''1.png''" None None world0]
  have es: "?es =
       [Exists ''images/3.png'' False, Log ERROR (ImageFileMissing ''images/3.png''),
        Log WARNING (ClickAttempt 2 ''3.png''), Sleep 1000,
        Exists ''images/3.png'' False, Log ERROR (ImageFileMissing ''images/3.png''),
        Log WARNING (ClickAttempt 3 ''3.png''), Sleep 1000,
        Exists ''images/3.png'' False, Log ERROR (ImageFileMissing ''images/3.png''),
        Log ERROR (ClickGiveUp ''3.png'')]"
    by (simp add: new_events_def template_3_missing_trace world0_fields)
  have h1: "2 < length ?es \<and> attempt_log ''3.png'' (?es ! 2)"
    by (simp add: es)
  from missing have "attempts_delayed template_3_missing ''3.png'' ?es"
    by (elim conjE)
  then have "2 < length ?es \<and> attempt_log ''3.png'' (?es ! 2) \<longrightarrow>
        Suc (Suc 2) < length ?es \<and> ?es ! Suc 2 = Sleep 1000 \<and>
        (\<exists>b. ?es ! Suc (Suc 2) = Exists (get_image_path template_3_missing ''3.png'') b)"
    unfolding attempts_delayed_def by (rule spec)
  with h1 have c1: "Suc (Suc 2) < length ?es \<and> ?es ! Suc 2 = Sleep 1000 \<and>
        (\<exists>b. ?es ! Suc (Suc 2) = Exists (get_image_path template_3_missing ''3.png'') b)"
    by (rule rev_mp)
  have h2: "click_image_with_offset (shown_at_100_200 (\<lambda>k. 0)) ''1.png'' None None world0 =
       (Inr True, ?W1)"
    using shown_at_100_200_clicked [of "\<lambda>k. 0"] by (simp add: prod_eq_iff)
  from shown have "\<forall>w'. click_image_with_offset (shown_at_100_200 (\<lambda>k. 0)) ''1.png''
         None None world0 = (Inr True, w') \<longrightarrow>
        (\<exists>pre x y dx dy. trace w' =
           pre @ [Locate (get_image_path (shown_at_100_200 (\<lambda>k. 0)) ''1.png'') None
                    (Found (x, y)),
                  Log INFO (FoundImage ''1.png'' (x, y)),
                  RandInt (- 5) 5 dx, RandInt (- 5) 5 dy, Click (x + dx) (y + dy) Done,
                  Log INFO (ClickOk ''1.png'' (x + dx, y + dy))])"
    by (elim conjE)
  with h2 have c2: "\<exists>pre x y dx dy. trace ?W1 =
           pre @ [Locate (get_image_path (shown_at_100_200 (\<lambda>k. 0)) ''1.png'') None
                    (Found (x, y)),
                  Log INFO (FoundImage ''1.png'' (x, y)),
                  RandInt (- 5) 5 dx, RandInt (- 5) 5 dy, Click (x + dx) (y + dy) Done,
                  Log INFO (ClickOk ''1.png'' (x + dx, y + dy))]"
    by blast
  note h3 = clicks_raise_final_attempt
  from raised have "\<forall>loc u u2 u3.
        wait_and_find_image clicks_raise ''1.png'' None None
          (stabilise_before_attempt clicks_raise ''1.png'' (retry_count - 1) u)
          = (Inr (Some loc), u2)
        \<and> click_at clicks_raise ''1.png'' loc u2 = (Raised, u3) \<longrightarrow>
        click_attempts clicks_raise ''1.png'' None None (retry_count - 1) u = (Inr False, u3)"
    by (elim conjE)
  with h3 have c3: "click_attempts clicks_raise ''1.png'' None None (retry_count - 1) world0 =
       (Inr False,
        \<lparr>clock = 1000, rng = 2, clipboard = [],
         trace = [Log WARNING (ClickAttempt 3 ''1.png''), Sleep 1000,
                  Exists ''images/1.png'' True, Log INFO (WaitingForImage ''1.png''),
                  Locate ''images/1.png'' None (Found (100, 200)),
                  Log INFO (FoundImage ''1.png'' (100, 200)),
                  RandInt (- 5) 5 (- 5), RandInt (- 5) 5 (- 5), Click 95 195 Raised,
                  Log ERROR (ClickError ''1.png'')]\<rparr>)"
    by blast
  from h1 c1 h2 c2 h3 c3 show ?thesis by (intro conjI) (elim conjE, assumption)+
qed


section \<open>The template store\<close>

text \<open>
  Claim C5. When the file of the template does not exist, \<^verbatim>\<open>wait_and_find_image\<close>
  returns \<^verbatim>\<open>None\<close> at once: it asks the file system, logs one error, and does nothing
  else. It matches nothing on the screen and sleeps no time, whatever the timeout; the
  clock moves by what the two calls themselves take.
\<close>

theorem missing_template_returns_at_once:
  assumes "\<not> path_exists E (length (trace w)) (get_image_path E image_name)"
  shows "wait_and_find_image E image_name timeout region w =
           (Inr None,
            w\<lparr>clock := clock w + cost E (length (trace w)) + cost E (Suc (length (trace w))),
              trace := trace w @ [Exists (get_image_path E image_name) False,
                         Log ERROR (ImageFileMissing (get_image_path E image_name))]\<rparr>)"
  using assms
  by (simp add: wait_and_find_image.simps os_path_exists_def log_def emit_def)

theorem missing_template_returns_at_once_witness: "\<not> path_exists (env_of (\<lambda>p. False) (\<lambda>p. NotFound) (\<lambda>k. False) (\<lambda>k. 0))
               (length (trace world0))
               (get_image_path (env_of (\<lambda>p. False) (\<lambda>p. NotFound) (\<lambda>k. False) (\<lambda>k. 0)) ''1.png'')
   \<and> wait_and_find_image (env_of (\<lambda>p. False) (\<lambda>p. NotFound) (\<lambda>k. False) (\<lambda>k. 0))
        ''1.png'' None None world0 =
      (Inr None, \<lparr>clock = 0, rng = 0, clipboard = [],
         trace = [Exists ''images/1.png'' False, Log ERROR (ImageFileMissing ''images/1.png'')]\<rparr>)"
  using missing_template_returns_at_once
    [of "env_of (\<lambda>p. False) (\<lambda>p. NotFound) (\<lambda>k. False) (\<lambda>k. 0)" world0 "''1.png''" None None]
  by (simp add: env_of_def world0_def get_image_path_def images_dir_def)


section \<open>The random email\<close>

lemma is_alnum_chars: "list_all is_alnum alnum_chars"
  by (simp add: alnum_chars_def is_alnum_def)

lemma length_alnum_chars: "length alnum_chars = 62"
  by (simp add: alnum_chars_def)

lemma random_choice_alnum:
  "random_choice E alnum_chars w = (c, w') \<Longrightarrow>
     is_alnum c \<and> w' = w\<lparr>clock := clock w + cost E (length (trace w)), rng := rng w + 1,
                          trace := trace w @ [RandChoice c]\<rparr>"
  using is_alnum_chars
  by (auto simp: random_choice_def Let_def emit_def list_all_length length_alnum_chars)

lemma random_chars_shape:
  "random_chars E k w = (cs, w') \<Longrightarrow>
     length cs = k \<and> list_all is_alnum cs \<and> clipboard w' = clipboard w \<and> rng w' = rng w + k
       \<and> trace w' = trace w @ map RandChoice cs"
proof (induction k arbitrary: w cs w')
  case 0
  then show ?case by simp
next
  case (Suc k)
  obtain c w1 where c: "random_choice E alnum_chars w = (c, w1)"
    by (cases "random_choice E alnum_chars w")
  obtain cs' w2 where r: "random_chars E k w1 = (cs', w2)"
    by (cases "random_chars E k w1")
  from Suc.prems c r have eq: "cs = c # cs'" "w' = w2" by simp_all
  from random_choice_alnum [OF c] Suc.IH [OF r] show ?case
    by (simp add: eq)
qed

text \<open>
  Claim C6. Every address \<^verbatim>\<open>generate_random_email\<close> returns matches
  \<^verbatim>\<open>^[A-Za-z0-9]{6}@163\.com$\<close>. The call draws six times from the random source,
  writes one log line, and leaves the clipboard as it was: it presses no key, clicks
  nothing and looks at no screen.
\<close>

theorem generate_random_email_shape:
  "case generate_random_email E w of (email, w') \<Rightarrow>
     matches_email_pattern email
     \<and> clipboard w' = clipboard w
     \<and> rng w' = rng w + 6
     \<and> trace w' = trace w @ map RandChoice (take 6 email) @ [Log INFO (EmailGenerated email)]"
proof -
  obtain cs w1 where r: "random_chars E 6 w = (cs, w1)"
    by (cases "random_chars E 6 w")
  from random_chars_shape [OF r] show ?thesis
    by (simp add: generate_random_email_def r matches_email_pattern_def)
qed


section \<open>Text entry\<close>

lemma ensure_english_input_events:
  "\<exists>w1 ime. ensure_english_input E w = (Inr (), w1)
     \<and> trace w1 = trace w @ ime \<and> clipboard w1 = clipboard w
     \<and> (ime = [PressShift Raised, Log ERROR ImeSwitchFailed]
        \<or> ime = [PressShift Done, Sleep 200, PressShift Raised, Log ERROR ImeSwitchFailed]
        \<or> ime = [PressShift Done, Sleep 200, PressShift Done, Log INFO ImeSwitched])"
  by (simp add: ensure_english_input_def keyboard_press_shift_def call_outcome_def Let_def)

lemma paste_or_fallback_events:
  assumes "ensure_english_input E w = (Inr (), w1)"
  shows "\<exists>paste.
     trace (snd (type_text_safely E text w)) = trace w1 @ paste
     \<and> (paste = [ClipCopy text Done, Sleep 200, HotkeyCtrlV Done, Log INFO (TextTyped text)]
          \<and> clipboard (snd (type_text_safely E text w)) = text
        \<or> paste = [ClipCopy text Done, Sleep 200, HotkeyCtrlV Raised, Log ERROR TextTypeFailed,
                    WriteText text 100 Done, Log INFO (TextTypedFallback text)]
          \<and> clipboard (snd (type_text_safely E text w)) = text
        \<or> paste = [ClipCopy text Done, Sleep 200, HotkeyCtrlV Raised, Log ERROR TextTypeFailed,
                    WriteText text 100 Raised, Log ERROR FallbackFailed]
          \<and> clipboard (snd (type_text_safely E text w)) = text
        \<or> paste = [ClipCopy text Raised, Log ERROR TextTypeFailed,
                    WriteText text 100 Done, Log INFO (TextTypedFallback text)]
          \<and> clipboard (snd (type_text_safely E text w)) = clipboard w1
        \<or> paste = [ClipCopy text Raised, Log ERROR TextTypeFailed,
                    WriteText text 100 Raised, Log ERROR FallbackFailed]
          \<and> clipboard (snd (type_text_safely E text w)) = clipboard w1)"
  using assms
  by (simp add: type_text_safely_def paste_text_def
      pyperclip_copy_def pyautogui_hotkey_ctrl_v_def
      pyautogui_write_def call_outcome_def Let_def)

text \<open>
  Claim C8. \<^verbatim>\<open>type_text_safely\<close> first presses shift (once more after 200 ms when the
  first press went through), then copies the text to the clipboard and pastes it with
  ctrl+v. When the copy or the paste raises, and only then, it types the text with
  \<^verbatim>\<open>pyautogui.write\<close> and 100 ms between the characters. Whenever the copy went
  through, the clipboard holds the text afterwards; nothing restores it.
\<close>

theorem type_text_safely_order:
  "\<exists>ime paste.
     trace (snd (type_text_safely E text w)) = trace w @ ime @ paste
     \<and> (ime = [PressShift Raised, Log ERROR ImeSwitchFailed]
        \<or> ime = [PressShift Done, Sleep 200, PressShift Raised, Log ERROR ImeSwitchFailed]
        \<or> ime = [PressShift Done, Sleep 200, PressShift Done, Log INFO ImeSwitched])
     \<and> (paste = [ClipCopy text Done, Sleep 200, HotkeyCtrlV Done, Log INFO (TextTyped text)]
          \<and> clipboard (snd (type_text_safely E text w)) = text
        \<or> paste = [ClipCopy text Done, Sleep 200, HotkeyCtrlV Raised, Log ERROR TextTypeFailed,
                    WriteText text 100 Done, Log INFO (TextTypedFallback text)]
          \<and> clipboard (snd (type_text_safely E text w)) = text
        \<or> paste = [ClipCopy text Done, Sleep 200, HotkeyCtrlV Raised, Log ERROR TextTypeFailed,
                    WriteText text 100 Raised, Log ERROR FallbackFailed]
          \<and> clipboard (snd (type_text_safely E text w)) = text
        \<or> paste = [ClipCopy text Raised, Log ERROR TextTypeFailed,
                    WriteText text 100 Done, Log INFO (TextTypedFallback text)]
          \<and> clipboard (snd (type_text_safely E text w)) = clipboard w
        \<or> paste = [ClipCopy text Raised, Log ERROR TextTypeFailed,
                    WriteText text 100 Raised, Log ERROR FallbackFailed]
          \<and> clipboard (snd (type_text_safely E text w)) = clipboard w)"
proof -
  obtain w1 ime where e: "ensure_english_input E w = (Inr (), w1)"
    and t1: "trace w1 = trace w @ ime" and c1: "clipboard w1 = clipboard w"
    and ime: "ime = [PressShift Raised, Log ERROR ImeSwitchFailed]
        \<or> ime = [PressShift Done, Sleep 200, PressShift Raised, Log ERROR ImeSwitchFailed]
        \<or> ime = [PressShift Done, Sleep 200, PressShift Done, Log INFO ImeSwitched]"
    using ensure_english_input_events [of E w] by blast
  from paste_or_fallback_events [OF e, of "text"] obtain paste where
    p: "trace (snd (type_text_safely E text w)) = trace w1 @ paste
     \<and> (paste = [ClipCopy text Done, Sleep 200, HotkeyCtrlV Done, Log INFO (TextTyped text)]
          \<and> clipboard (snd (type_text_safely E text w)) = text
        \<or> paste = [ClipCopy text Done, Sleep 200, HotkeyCtrlV Raised, Log ERROR TextTypeFailed,
                    WriteText text 100 Done, Log INFO (TextTypedFallback text)]
          \<and> clipboard (snd (type_text_safely E text w)) = text
        \<or> paste = [ClipCopy text Done, Sleep 200, HotkeyCtrlV Raised, Log ERROR TextTypeFailed,
                    WriteText text 100 Raised, Log ERROR FallbackFailed]
          \<and> clipboard (snd (type_text_safely E text w)) = text
        \<or> paste = [ClipCopy text Raised, Log ERROR TextTypeFailed,
                    WriteText text 100 Done, Log INFO (TextTypedFallback text)]
          \<and> clipboard (snd (type_text_safely E text w)) = clipboard w1
        \<or> paste = [ClipCopy text Raised, Log ERROR TextTypeFailed,
                    WriteText text 100 Raised, Log ERROR FallbackFailed]
          \<and> clipboard (snd (type_text_safely E text w)) = clipboard w1)"
    by blast
  show ?thesis
    apply (rule exI [of _ ime])
    apply (rule exI [of _ paste])
    using p t1 c1 ime by simp
qed



section \<open>The sequence\<close>

lemma str_nat_digits: "str_nat 1 = ''1''" "str_nat 2 = ''2''" "str_nat 3 = ''3''"
  by simp_all

lemma conclude_click:
  "conclude E (case click_or_abort E n w of
        (Inr True, w1) \<Rightarrow> k w1
      | (Inr False, w1) \<Rightarrow> (Inr False, email, w1)
      | (Inl e, w1) \<Rightarrow> (Inl e, email, w1)) =
   (case click_or_abort E n w of
        (Inl e, w1) \<Rightarrow> (Inl e, w1)
      | (Inr False, w1) \<Rightarrow> (Inr False, w1)
      | (Inr True, w1) \<Rightarrow> conclude E (k w1))"
  by (simp add: conclude_def split: prod.split sum.split bool.split)

lemma conclude_type:
  "conclude E (case type_text_safely E text w of
        (Inr u, w1) \<Rightarrow> k w1
      | (Inl e, w1) \<Rightarrow> (Inl e, email, w1)) =
   (case type_text_safely E text w of
        (Inl e, w1) \<Rightarrow> (Inl e, w1)
      | (Inr u, w1) \<Rightarrow> conclude E (k w1))"
  by (simp add: conclude_def split: prod.split sum.split)

lemma conclude_email:
  "conclude E (case generate_random_email E w of (email, w1) \<Rightarrow> k email w1) =
   (case generate_random_email E w of (email, w1) \<Rightarrow> conclude E (k email w1))"
  by (simp split: prod.split)

lemma conclude_done: "conclude E (Inr True, email, w) = (Inr True, log E INFO SeqCompleted w)"
  by (simp add: conclude_def)

lemma click_each_three:
  "click_each E [1, 2, 3] w =
     (case click_or_abort E ''1.png'' w of
        (Inl e, w1) \<Rightarrow> (Inl e, w1)
      | (Inr False, w1) \<Rightarrow> (Inr False, w1)
      | (Inr True, w1) \<Rightarrow>
     (case click_or_abort E ''2.png'' (jitter E w1) of
        (Inl e, w2) \<Rightarrow> (Inl e, w2)
      | (Inr False, w2) \<Rightarrow> (Inr False, w2)
      | (Inr True, w2) \<Rightarrow>
     (case click_or_abort E ''3.png'' (jitter E w2) of
        (Inl e, w3) \<Rightarrow> (Inl e, w3)
      | (Inr False, w3) \<Rightarrow> (Inr False, w3)
      | (Inr True, w3) \<Rightarrow> (Inr True, jitter E w3))))"
  by (simp add: image_file_def split: prod.split sum.split bool.split)

lemma case_of_click:
  "(case (case click_or_abort E n w of
            (Inl e, w1) \<Rightarrow> (Inl e, w1)
          | (Inr False, w1) \<Rightarrow> (Inr False, w1)
          | (Inr True, w1) \<Rightarrow> k w1) of
      (Inl e, w1) \<Rightarrow> (Inl e, w1)
    | (Inr False, w1) \<Rightarrow> (Inr False, w1)
    | (Inr True, w1) \<Rightarrow> K w1) =
   (case click_or_abort E n w of
      (Inl e, w1) \<Rightarrow> (Inl e, w1)
    | (Inr False, w1) \<Rightarrow> (Inr False, w1)
    | (Inr True, w1) \<Rightarrow>
        (case k w1 of
           (Inl e, w1) \<Rightarrow> (Inl e, w1)
         | (Inr False, w1) \<Rightarrow> (Inr False, w1)
         | (Inr True, w1) \<Rightarrow> K w1))"
  by (simp split: prod.split sum.split bool.split)

lemma sequence_body_script:
  "sequence_body E w = conclude E (run_steps E sequence_script [] w)"
  unfolding sequence_body_def click_each_three sequence_script_def run_steps.simps
    conclude_click conclude_type conclude_email conclude_done case_of_click
    prod.case sum.case bool.case
  by (rule refl)


lemma run_steps_append:
  "run_steps E (pre @ post) email w =
     (case run_steps E pre email w of
        (Inr True, email', w1) \<Rightarrow> run_steps E post email' w1
      | (Inr False, email', w1) \<Rightarrow> (Inr False, email', w1)
      | (Inl e, email', w1) \<Rightarrow> (Inl e, email', w1))"
proof (induction pre arbitrary: email w)
  case Nil
  then show ?case by simp
next
  case (Cons s pre)
  then show ?case
    by (cases s) (simp_all split: prod.split sum.split bool.split)
qed

lemma type_text_safely_returns: "\<exists>w'. type_text_safely E text w = (Inr (), w')"
  by (simp add: type_text_safely_def paste_text_def ensure_english_input_def
      split: prod.split sum.split outcome.split)

lemma click_or_abort_cases:
  obtains u where "click_image_with_offset E n None None w = (Inr True, u)"
      "click_or_abort E n w = (Inr True, u)"
    | u where "click_image_with_offset E n None None w = (Inr False, u)"
      "click_or_abort E n w = (Inr False, log E ERROR (SeqStepFailed n) u)"
proof -
  obtain b where "fst (click_image_with_offset E n None None w) = Inr b"
    using never_raises(3) by blast
  then show ?thesis
    using that
    by (cases "click_image_with_offset E n None None w"; cases b)
      (simp_all add: click_or_abort_def)
qed

lemma run_steps_false:
  "run_steps E ss email w = (Inr False, email', w') \<Longrightarrow>
     \<exists>pre n post em w1 w2. ss = pre @ ClickStep n # post
       \<and> run_steps E pre email w = (Inr True, em, w1)
       \<and> click_image_with_offset E n None None w1 = (Inr False, w2)
       \<and> w' = log E ERROR (SeqStepFailed n) w2"
proof (induction ss arbitrary: email w)
  case Nil
  then show ?case by simp
next
  case (Cons s ss)
  have ext: "\<exists>pre n post em w1 w2. s # ss = pre @ ClickStep n # post
       \<and> run_steps E pre email w = (Inr True, em, w1)
       \<and> click_image_with_offset E n None None w1 = (Inr False, w2)
       \<and> w' = log E ERROR (SeqStepFailed n) w2"
    if run: "run_steps E ss em0 u = (Inr False, email', w')"
      and one: "run_steps E [s] email w = (Inr True, em0, u)" for em0 u
  proof -
    from Cons.IH [OF run] obtain pre n post em w1 w2 where
      *: "ss = pre @ ClickStep n # post" "run_steps E pre em0 u = (Inr True, em, w1)"
      "click_image_with_offset E n None None w1 = (Inr False, w2)"
      "w' = log E ERROR (SeqStepFailed n) w2"
      by blast
    have "run_steps E (s # pre) email w = (Inr True, em, w1)"
      using run_steps_append [of E "[s]" pre email w] one *(2) by simp
    with * show ?thesis
      apply (rule_tac x = "s # pre" in exI)
      apply (rule_tac x = n in exI)
      apply (rule_tac x = post in exI)
      apply (rule_tac x = em in exI)
      apply (rule_tac x = w1 in exI)
      apply (rule_tac x = w2 in exI)
      apply simp
      done
  qed
  show ?case
  proof (cases s)
    case (ClickStep n)
    show ?thesis
    proof (cases rule: click_or_abort_cases [of E n w])
      case (1 u)
      show ?thesis
        by (rule ext [of email u]) (use Cons.prems ClickStep 1 in simp_all)
    next
      case (2 u)
      then show ?thesis
        using Cons.prems ClickStep
        apply (rule_tac x = "[]" in exI)
        apply (rule_tac x = n in exI)
        apply (rule_tac x = ss in exI)
        apply (rule_tac x = email in exI)
        apply (rule_tac x = w in exI)
        apply (rule_tac x = u in exI)
        apply simp
        done
    qed
  next
    case Pause
    show ?thesis
      by (rule ext [of email "jitter E w"]) (use Cons.prems Pause in simp_all)
  next
    case NewEmail
    show ?thesis
      by (rule ext [of "fst (generate_random_email E w)" "snd (generate_random_email E w)"])
        (use Cons.prems NewEmail in \<open>simp_all split: prod.splits\<close>)
  next
    case TypeEmail
    obtain u where u: "type_text_safely E email w = (Inr (), u)"
      using type_text_safely_returns by blast
    show ?thesis
      by (rule ext [of email u]) (use Cons.prems TypeEmail u in simp_all)
  qed
qed

lemma run_steps_never_raises: "fst (run_steps E ss email w) \<noteq> Inl e"
proof (induction ss arbitrary: email w)
  case Nil
  then show ?case by simp
next
  case (Cons s ss)
  show ?case
  proof (cases s)
    case (ClickStep n)
    then show ?thesis
      using Cons.IH by (cases rule: click_or_abort_cases [of E n w]) simp_all
  next
    case TypeEmail
    then show ?thesis
      using type_text_safely_returns [of E email w] Cons.IH by auto
  qed (use Cons.IH in \<open>simp_all split: prod.splits\<close>)
qed

lemma quiet_click_event: "click_event E n e \<Longrightarrow> \<not> typing_event e \<and> \<not> email_event e"
  by (cases e rule: typing_event.cases; cases e rule: email_event.cases)
    (auto simp: click_event_def elim!: popup_event.elims click_own.elims)

lemma steps_by_jitter:
  "A (Sleep (300 + rand E (rng w) mod 301)) \<Longrightarrow> A (RandUniform (300 + rand E (rng w) mod 301))
     \<Longrightarrow> steps_by A w (jitter E w)"
  by (simp add: jitter_def random_uniform_def Let_def steps_by_iff)

lemma run_steps_quiet:
  "list_all click_or_pause ss \<Longrightarrow> run_steps E ss email w = (res, email', w') \<Longrightarrow>
     steps_by (\<lambda>e. \<not> typing_event e \<and> \<not> email_event e) w w'"
proof (induction ss arbitrary: w)
  case Nil
  then show ?case by (simp add: steps_by_refl)
next
  case (Cons s ss)
  let ?A = "\<lambda>e. \<not> typing_event e \<and> \<not> email_event e"
  show ?case
  proof (cases s)
    case (ClickStep n)
    have c: "steps_by ?A w (snd (click_image_with_offset E n None None w))"
      by (rule steps_by_mono [OF _ alphabet(3)]) (rule quiet_click_event)
    show ?thesis
    proof (cases rule: click_or_abort_cases [of E n w])
      case (1 u)
      with c have "steps_by ?A w u" by simp
      moreover have "steps_by ?A u w'"
        using Cons.IH [of u] Cons.prems ClickStep 1 by simp
      ultimately show ?thesis by (rule steps_by_trans)
    next
      case (2 u)
      with c have "steps_by ?A w u" by simp
      then have "steps_by ?A w (log E ERROR (SeqStepFailed n) u)"
        by (intro steps_by_log) simp_all
      then show ?thesis using Cons.prems ClickStep 2 by simp
    qed
  next
    case Pause
    have "steps_by ?A w (jitter E w)"
      by (rule steps_by_jitter) simp_all
    moreover have "steps_by ?A (jitter E w) w'"
      using Cons.IH [of "jitter E w"] Cons.prems Pause by simp
    ultimately show ?thesis by (rule steps_by_trans)
  qed (use Cons.prems in simp_all)
qed

lemma perform_aborts_at:
  assumes "sequence_script = pre @ ClickStep name # post"
    and "run_steps E pre [] w = (Inr True, email, w1)"
    and "click_image_with_offset E name None None w1 = (Inr False, w2)"
  shows "perform_automation_sequence E w = (False, log E ERROR (SeqStepFailed name) w2)"
proof -
  have "click_or_abort E name w1 = (Inr False, log E ERROR (SeqStepFailed name) w2)"
    using assms(3) by (simp add: click_or_abort_def)
  then have "run_steps E (pre @ ClickStep name # post) [] w =
               (Inr False, email, log E ERROR (SeqStepFailed name) w2)"
    by (simp add: run_steps_append assms(2))
  then have "run_steps E sequence_script [] w =
               (Inr False, email, log E ERROR (SeqStepFailed name) w2)"
    by (simp only: assms(1))
  then show ?thesis
    by (simp add: perform_automation_sequence_def sequence_body_script conclude_def)
qed

text \<open>
  Claim C1. When a click of the script fails, \<^verbatim>\<open>perform_automation_sequence\<close> returns
  \<^verbatim>\<open>False\<close> in the world that click left, with one more log line: no later step has
  run. When the steps before it were clicks and pauses only, as they are before the click
  on \<^verbatim>\<open>3.png\<close>, the whole run has made no email, pressed no key, written no clipboard
  and typed no text.
\<close>

theorem failed_click_aborts_sequence:
  assumes "sequence_script = pre @ ClickStep name # post"
    and "run_steps E pre [] w = (Inr True, email, w1)"
    and "click_image_with_offset E name None None w1 = (Inr False, w2)"
  shows "perform_automation_sequence E w = (False, log E ERROR (SeqStepFailed name) w2)
       \<and> (list_all click_or_pause pre \<longrightarrow>
            steps_by (\<lambda>e. \<not> typing_event e \<and> \<not> email_event e) w
              (log E ERROR (SeqStepFailed name) w2))"
proof
  show "perform_automation_sequence E w = (False, log E ERROR (SeqStepFailed name) w2)"
    using assms by (rule perform_aborts_at)
next
  show "list_all click_or_pause pre \<longrightarrow>
          steps_by (\<lambda>e. \<not> typing_event e \<and> \<not> email_event e) w
            (log E ERROR (SeqStepFailed name) w2)"
  proof
    assume pre: "list_all click_or_pause pre"
    let ?A = "\<lambda>e. \<not> typing_event e \<and> \<not> email_event e"
    have "steps_by ?A w w1"
      using run_steps_quiet [OF pre assms(2)] .
    moreover have "steps_by ?A w1 w2"
      using steps_by_mono [OF quiet_click_event alphabet(3) [of E name w1 None None]] assms(3)
      by simp
    ultimately have "steps_by ?A w w2" by (rule steps_by_trans)
    then show "steps_by ?A w (log E ERROR (SeqStepFailed name) w2)"
      by (intro steps_by_log) simp_all
  qed
qed

lemma click_or_abort_ok:
  "fst (click_image_with_offset E n None None w) = Inr True \<Longrightarrow>
     click_or_abort E n w = (Inr True, snd (click_image_with_offset E n None None w))"
  by (cases "click_image_with_offset E n None None w") (simp add: click_or_abort_def)

lemma template_3_missing_clicks:
  "n \<noteq> ''3.png'' \<Longrightarrow> n \<noteq> ''7.png'' \<Longrightarrow>
     fst (click_image_with_offset template_3_missing n None None w) = Inr True"
  by (rule click_first_found [where loc = "(10, 20)"])
    (simp_all add: template_3_missing_def env_of_def get_image_path_def images_dir_def
      timeout_or_default_def max_wait_time_def)

lemma template_3_missing_fails:
  "fst (click_image_with_offset template_3_missing ''3.png'' None None w) = Inr False"
  by (rule click_missing)
    (simp add: template_3_missing_def env_of_def get_image_path_def images_dir_def)

lemma template_3_missing_run:
  "run_steps template_3_missing steps_before_3 [] world0 =
     (Inr True, [], snd (snd (run_steps template_3_missing steps_before_3 [] world0)))"
proof -
  have "fst (run_steps template_3_missing steps_before_3 [] world0) = Inr True"
    by (simp add: steps_before_3_def click_or_abort_ok template_3_missing_clicks)
  moreover have "fst (snd (run_steps template_3_missing steps_before_3 [] world0)) = []"
    by (simp add: steps_before_3_def click_or_abort_ok template_3_missing_clicks)
  ultimately show ?thesis by (simp add: prod_eq_iff)
qed

lemma template_3_missing_script:
  "sequence_script = steps_before_3 @ ClickStep ''3.png'' # steps_after_3"
  by (simp add: sequence_script_def steps_before_3_def steps_after_3_def)

lemma template_3_missing_aborts:
  "fst (perform_automation_sequence template_3_missing world0) = False"
proof -
  let ?w1 = "snd (snd (run_steps template_3_missing steps_before_3 [] world0))"
  have "click_image_with_offset template_3_missing ''3.png'' None None ?w1 =
          (Inr False, snd (click_image_with_offset template_3_missing ''3.png'' None None ?w1))"
    using template_3_missing_fails [of ?w1] by (simp add: prod_eq_iff)
  from perform_aborts_at [OF template_3_missing_script template_3_missing_run this]
  show ?thesis by simp
qed

theorem failed_click_aborts_sequence_witness:
  "sequence_script = steps_before_3 @ ClickStep ''3.png'' # steps_after_3
   \<and> fst (run_steps template_3_missing steps_before_3 [] world0) = Inr True
   \<and> fst (click_image_with_offset template_3_missing ''3.png'' None None
            (snd (snd (run_steps template_3_missing steps_before_3 [] world0)))) = Inr False
   \<and> perform_automation_sequence template_3_missing world0 =
       (False, log template_3_missing ERROR (SeqStepFailed ''3.png'')
          (snd (click_image_with_offset template_3_missing ''3.png'' None None
             (snd (snd (run_steps template_3_missing steps_before_3 [] world0))))))
   \<and> steps_by (\<lambda>e. \<not> typing_event e \<and> \<not> email_event e) world0
       (log template_3_missing ERROR (SeqStepFailed ''3.png'')
          (snd (click_image_with_offset template_3_missing ''3.png'' None None
             (snd (snd (run_steps template_3_missing steps_before_3 [] world0))))))"
proof -
  let ?E = template_3_missing
  let ?w1 = "snd (snd (run_steps ?E steps_before_3 [] world0))"
  let ?w2 = "snd (click_image_with_offset ?E ''3.png'' None None ?w1)"
  note h1 = template_3_missing_script
  note run = template_3_missing_run
  have f1: "fst (run_steps ?E steps_before_3 [] world0) = Inr True"
    by (simp add: steps_before_3_def click_or_abort_ok template_3_missing_clicks)
  have f3: "fst (click_image_with_offset ?E ''3.png'' None None ?w1) = Inr False"
    by (rule template_3_missing_fails)
  have h3: "click_image_with_offset ?E ''3.png'' None None ?w1 = (Inr False, ?w2)"
    using f3 by (simp add: prod_eq_iff)
  have pre: "list_all click_or_pause steps_before_3"
    by (simp add: steps_before_3_def)
  note main = failed_click_aborts_sequence [OF h1 run h3]
  show ?thesis
    using h1 f1 f3 main pre by blast
qed

subsection \<open>Text entry inside the sequence\<close>

lemma type_text_failures_logged:
  "(PressShift Raised \<in> set (new_events w (snd (type_text_safely E text w)))
      \<longrightarrow> Log ERROR ImeSwitchFailed \<in> set (new_events w (snd (type_text_safely E text w))))
   \<and> (ClipCopy text Raised \<in> set (new_events w (snd (type_text_safely E text w)))
       \<or> HotkeyCtrlV Raised \<in> set (new_events w (snd (type_text_safely E text w)))
      \<longrightarrow> Log ERROR TextTypeFailed \<in> set (new_events w (snd (type_text_safely E text w))))
   \<and> (WriteText text 100 Raised \<in> set (new_events w (snd (type_text_safely E text w)))
      \<longrightarrow> Log ERROR FallbackFailed \<in> set (new_events w (snd (type_text_safely E text w))))"
proof -
  obtain w1 ime where e: "ensure_english_input E w = (Inr (), w1)"
    and t1: "trace w1 = trace w @ ime"
    and ime: "ime = [PressShift Raised, Log ERROR ImeSwitchFailed]
        \<or> ime = [PressShift Done, Sleep 200, PressShift Raised, Log ERROR ImeSwitchFailed]
        \<or> ime = [PressShift Done, Sleep 200, PressShift Done, Log INFO ImeSwitched]"
    using ensure_english_input_events [of E w] by blast
  from paste_or_fallback_events [OF e, of "text"] obtain paste where
    t2: "trace (snd (type_text_safely E text w)) = trace w1 @ paste"
    and paste: "paste = [ClipCopy text Done, Sleep 200, HotkeyCtrlV Done, Log INFO (TextTyped text)]
        \<or> paste = [ClipCopy text Done, Sleep 200, HotkeyCtrlV Raised, Log ERROR TextTypeFailed,
                    WriteText text 100 Done, Log INFO (TextTypedFallback text)]
        \<or> paste = [ClipCopy text Done, Sleep 200, HotkeyCtrlV Raised, Log ERROR TextTypeFailed,
                    WriteText text 100 Raised, Log ERROR FallbackFailed]
        \<or> paste = [ClipCopy text Raised, Log ERROR TextTypeFailed,
                    WriteText text 100 Done, Log INFO (TextTypedFallback text)]
        \<or> paste = [ClipCopy text Raised, Log ERROR TextTypeFailed,
                    WriteText text 100 Raised, Log ERROR FallbackFailed]"
    by blast
  have ne: "new_events w (snd (type_text_safely E text w)) = ime @ paste"
    by (simp add: new_events_def t1 t2)
  show ?thesis
    unfolding ne using ime paste by auto
qed

text \<open>
  Claim C9. \<^verbatim>\<open>type_text_safely\<close> always returns: a key press, a clipboard write, a
  paste or a typed fallback that raises is followed by its error line in the log and
  goes no further. So when \<^verbatim>\<open>perform_automation_sequence\<close> returns \<^verbatim>\<open>False\<close>, it is a
  click of the script that returned \<^verbatim>\<open>False\<close>, and the run ended there.
\<close>

theorem text_entry_never_aborts:
  "(\<exists>w'. type_text_safely E text w = (Inr (), w'))
   \<and> (PressShift Raised \<in> set (new_events w (snd (type_text_safely E text w)))
      \<longrightarrow> Log ERROR ImeSwitchFailed \<in> set (new_events w (snd (type_text_safely E text w))))
   \<and> (ClipCopy text Raised \<in> set (new_events w (snd (type_text_safely E text w)))
       \<or> HotkeyCtrlV Raised \<in> set (new_events w (snd (type_text_safely E text w)))
      \<longrightarrow> Log ERROR TextTypeFailed \<in> set (new_events w (snd (type_text_safely E text w))))
   \<and> (WriteText text 100 Raised \<in> set (new_events w (snd (type_text_safely E text w)))
      \<longrightarrow> Log ERROR FallbackFailed \<in> set (new_events w (snd (type_text_safely E text w))))
   \<and> (perform_automation_sequence E u = (False, u') \<longrightarrow>
        (\<exists>pre name post email w1 w2.
           sequence_script = pre @ ClickStep name # post
           \<and> run_steps E pre [] u = (Inr True, email, w1)
           \<and> click_image_with_offset E name None None w1 = (Inr False, w2)
           \<and> u' = log E ERROR (SeqStepFailed name) w2))"
proof -
  have seq: "\<exists>pre name post email w1 w2.
           sequence_script = pre @ ClickStep name # post
           \<and> run_steps E pre [] u = (Inr True, email, w1)
           \<and> click_image_with_offset E name None None w1 = (Inr False, w2)
           \<and> u' = log E ERROR (SeqStepFailed name) w2"
    if f: "perform_automation_sequence E u = (False, u')"
  proof -
    obtain res em v where r: "run_steps E sequence_script [] u = (res, em, v)"
      by (cases "run_steps E sequence_script [] u")
    have "res = Inr False \<and> v = u'"
    proof (cases res)
      case (Inl e)
      then show ?thesis using run_steps_never_raises [of E sequence_script "[]" u e] r by simp
    next
      case (Inr b)
      then show ?thesis
        using f r
        by (cases b) (simp_all add: perform_automation_sequence_def sequence_body_script
            conclude_def)
    qed
    with r have "run_steps E sequence_script [] u = (Inr False, em, u')" by simp
    from run_steps_false [OF this] show ?thesis .
  qed
  show ?thesis
    using type_text_safely_returns [of E "text" w] type_text_failures_logged [of w E "text"] seq
    by blast
qed

theorem text_entry_never_aborts_witness:
  "new_events world0 (snd (type_text_safely all_drivers_fail ''a'' world0)) =
     [PressShift Raised, Log ERROR ImeSwitchFailed, ClipCopy ''a'' Raised,
      Log ERROR TextTypeFailed, WriteText ''a'' 100 Raised, Log ERROR FallbackFailed]
   \<and> fst (type_text_safely all_drivers_fail ''a'' world0) = Inr ()
   \<and> fst (perform_automation_sequence template_3_missing world0) = False
   \<and> (\<exists>pre name post email w1 w2.
         sequence_script = pre @ ClickStep name # post
         \<and> run_steps template_3_missing pre [] world0 = (Inr True, email, w1)
         \<and> click_image_with_offset template_3_missing name None None w1 = (Inr False, w2)
         \<and> snd (perform_automation_sequence template_3_missing world0) =
             log template_3_missing ERROR (SeqStepFailed name) w2)"
proof -
  have ev: "new_events world0 (snd (type_text_safely all_drivers_fail ''a'' world0)) =
     [PressShift Raised, Log ERROR ImeSwitchFailed, ClipCopy ''a'' Raised,
      Log ERROR TextTypeFailed, WriteText ''a'' 100 Raised, Log ERROR FallbackFailed]"
    by (simp add: new_events_def type_text_safely_def paste_text_def ensure_english_input_def
        keyboard_press_shift_def pyperclip_copy_def pyautogui_write_def call_outcome_def
        all_drivers_fail_def env_of_def world0_def Let_def)
  have f: "perform_automation_sequence template_3_missing world0 =
             (False, snd (perform_automation_sequence template_3_missing world0))"
    using template_3_missing_aborts by (simp add: prod_eq_iff)
  from text_entry_never_aborts [of all_drivers_fail "''a''" world0]
  obtain w' where "type_text_safely all_drivers_fail ''a'' world0 = (Inr (), w')"
    by blast
  then have r: "fst (type_text_safely all_drivers_fail ''a'' world0) = Inr ()"
    by simp
  from text_entry_never_aborts
    [of template_3_missing "''a''" world0 world0
      "snd (perform_automation_sequence template_3_missing world0)"] f
  have "\<exists>pre name post email w1 w2.
         sequence_script = pre @ ClickStep name # post
         \<and> run_steps template_3_missing pre [] world0 = (Inr True, email, w1)
         \<and> click_image_with_offset template_3_missing name None None w1 = (Inr False, w2)
         \<and> snd (perform_automation_sequence template_3_missing world0) =
             log template_3_missing ERROR (SeqStepFailed name) w2"
    by blast
  with ev r template_3_missing_aborts show ?thesis by blast
qed


section \<open>No popup within the popup\<close>

lemma dismiss_popup_7: "dismiss_popup E ''7.png'' w = w"
  by (simp add: dismiss_popup_def)

lemma without_scan:
  "n = ''7.png'' \<longrightarrow> wait_and_find_image E n t r w = wait_without_scan E n t r w"
  "n = ''7.png'' \<longrightarrow> poll_loop E n p ti r s w = poll_without_scan E n p ti r s w"
  "n = ''7.png'' \<longrightarrow> click_image_with_offset E n t r w = click_without_scan E n t r w"
  "n = ''7.png'' \<longrightarrow> click_attempts E n t r a w = attempts_without_scan E n t r a w"
proof (induction E n t r w and E n p ti r s w and E n t r w and E n t r a w
    rule: automation_induct)
  case (wait E n t r w)
  obtain b w1 where ex: "os_path_exists E (get_image_path E n) w = (b, w1)"
    by (cases "os_path_exists E (get_image_path E n) w")
  show ?case
  proof (intro impI)
    assume n: "n = ''7.png''"
    show "wait_and_find_image E n t r w = wait_without_scan E n t r w"
      using n ex wait [of w1]
      by (cases b) (simp_all add: wait_and_find_image.simps wait_without_scan_def)
  qed
next
  case (poll E n p ti r s w)
  obtain res w1 where pr: "primary_retries E n p r 0 w = (res, w1)"
    by (cases "primary_retries E n p r 0 w")
  show ?case
  proof (intro impI)
    assume n: "n = ''7.png''"
    have dp: "dismiss_popup E n u = u" for u
      using n by (simp add: dismiss_popup_def)
    note unfold = poll_loop_step [of E n p ti r s w] poll_without_scan.simps [of E n p ti r s w]
    show "poll_loop E n p ti r s w = poll_without_scan E n p ti r s w"
    proof (cases "before_deadline E ti s w")
      case False
      then show ?thesis by (simp add: unfold)
    next
      case True
      show ?thesis
      proof (cases res)
        case None
        have "poll_loop E n p ti r s w = poll_loop E n p ti r s (sleep E check_interval w1)"
          "poll_without_scan E n p ti r s w =
             poll_without_scan E n p ti r s (sleep E check_interval w1)"
          using True pr None by (simp_all add: unfold dp)
        moreover have "poll_loop E n p ti r s (sleep E check_interval w1) =
            poll_without_scan E n p ti r s (sleep E check_interval w1)"
          using poll(2) [of w1] True pr None n by (simp add: dismiss_popup_7)
        ultimately show ?thesis by simp
      next
        case (Some loc)
        then show ?thesis using True pr by (simp add: unfold)
      qed
    qed
  qed
next
  case (click E n t r w)
  then show ?case by (simp add: click_image_with_offset.simps click_without_scan_def)
next
  case (attempts E n t r a w)
  note unfold = click_attempts.simps [of E n t r a w]
    attempts_without_scan.simps [of E n t r a w]
  show ?case
  proof (intro impI)
    assume n: "n = ''7.png''"
    show "click_attempts E n t r a w = attempts_without_scan E n t r a w"
    proof (cases "a < retry_count")
      case False
      then show ?thesis by (simp add: unfold)
    next
      case True
      let ?w1 = "stabilise_before_attempt E n a w"
      have same: "wait_and_find_image E n t r ?w1 = wait_without_scan E n t r ?w1"
        using attempts(1) [OF True] n by simp
      obtain res w2 where wt: "wait_and_find_image E n t r ?w1 = (res, w2)"
        by (cases "wait_and_find_image E n t r ?w1")
      have wt': "wait_without_scan E n t r ?w1 = (res, w2)"
        using same wt by simp
      show ?thesis
      proof (cases res)
        case (Inl e)
        then show ?thesis using True wt wt' by (simp add: unfold)
      next
        case (Inr found)
        show ?thesis
        proof (cases found)
          case None
          have "click_attempts E n t r a w = click_attempts E n t r (a + 1) w2"
            "attempts_without_scan E n t r a w = attempts_without_scan E n t r (a + 1) w2"
            using True wt wt' Inr None by (simp_all add: unfold)
          then show ?thesis
            using attempts(2) [OF True, of w2] wt Inr None n by simp
        next
          case (Some loc)
          obtain cres w3 where ca: "click_at E n loc w2 = (cres, w3)"
            by (cases "click_at E n loc w2")
          have eq: "click_attempts E n t r a w =
                  (case cres of Done \<Rightarrow> (Inr True, w3)
                   | Raised \<Rightarrow> if a = retry_count - 1 then (Inr False, w3)
                       else click_attempts E n t r (a + 1) w3)"
            "attempts_without_scan E n t r a w =
                  (case cres of Done \<Rightarrow> (Inr True, w3)
                   | Raised \<Rightarrow> if a = retry_count - 1 then (Inr False, w3)
                       else attempts_without_scan E n t r (a + 1) w3)"
            using True wt wt' Inr Some ca by (simp_all add: unfold)
          show ?thesis
          proof (cases "cres = Raised \<and> a \<noteq> retry_count - 1")
            case False
            then show ?thesis unfolding eq by (cases cres) auto
          next
            case go: True
            then have "click_attempts E n t r (a + 1) w3 =
                attempts_without_scan E n t r (a + 1) w3"
              using attempts(3) [OF True _ _ _, of loc w2 w3] wt Inr Some ca n by simp
            then show ?thesis unfolding eq using go by simp
          qed
        qed
      qed
    qed
  qed
qed


text \<open>
  Claim C10. Handling the popup never nests. A wait for \<^verbatim>\<open>7.png\<close> and a click on
  \<^verbatim>\<open>7.png\<close> are the wait and the click that never look for the popup, whose wait calls
  no click. So one round of the poll loop of any wait is the round of the source with
  the click on the popup replaced by the click that never looks for it: a wait calls
  itself and, for the popup, that click, and nothing below. Every call of a click on
  \<^verbatim>\<open>7.png\<close> is a call for \<^verbatim>\<open>7.png\<close> itself, and no line reports a popup found there;
  a wait for \<^verbatim>\<open>7.png\<close> clicks nowhere.
\<close>

theorem popup_handling_never_nests:
  "wait_and_find_image E ''7.png'' t r w = wait_without_scan E ''7.png'' t r w
   \<and> click_image_with_offset E ''7.png'' t r w = click_without_scan E ''7.png'' t r w
   \<and> poll_loop E image_name image_path timeout region start_time u =
       (if before_deadline E timeout start_time u then
          (case primary_retries E image_name image_path region 0 u of
             (Some location, w1) \<Rightarrow> (Inr (Some location), w1)
           | (None, w1) \<Rightarrow>
               poll_loop E image_name image_path timeout region start_time
                 (sleep E check_interval
                    (if image_name \<noteq> ''7.png'' then
                       (case locateCenterOnScreen E (get_image_path E ''7.png'') None w1 of
                          (Found popup_location, w1a) \<Rightarrow>
                            snd (click_without_scan E ''7.png'' None None
                                   (log E INFO (PopupDetected popup_location) w1a))
                        | (NotFound, w1a) \<Rightarrow> w1a
                        | (LocateRaised, w1a) \<Rightarrow> w1a)
                     else w1)))
        else (Inr None, log E WARNING (WaitTimeout image_name) u))
   \<and> list_all (wait_own E ''7.png'')
         (new_events w (snd (wait_and_find_image E ''7.png'' t r w)))
   \<and> list_all (click_own E ''7.png'')
         (new_events w (snd (click_image_with_offset E ''7.png'' t r w)))"
proof (intro conjI)
  have "wait_event E ''7.png'' = wait_own E ''7.png''"
    by (rule ext) (simp add: wait_event_def)
  then have "steps_by (wait_own E ''7.png'') w (snd (wait_and_find_image E ''7.png'' t r w))"
    using alphabet(1) [of E "''7.png''" w t r] by simp
  then show "list_all (wait_own E ''7.png'')
         (new_events w (snd (wait_and_find_image E ''7.png'' t r w)))"
    by (simp add: steps_by_def)
  show "wait_and_find_image E ''7.png'' t r w = wait_without_scan E ''7.png'' t r w"
    using without_scan(1) [of "''7.png''" E t r w] by simp
  show "click_image_with_offset E ''7.png'' t r w = click_without_scan E ''7.png'' t r w"
    using without_scan(3) [of "''7.png''" E t r w] by simp
  have click7: "click_image_with_offset E ''7.png'' None None x =
      click_without_scan E ''7.png'' None None x" for x
    using without_scan(3) [of "''7.png''" E None None x] by simp
  show "poll_loop E image_name image_path timeout region start_time u =
       (if before_deadline E timeout start_time u then
          (case primary_retries E image_name image_path region 0 u of
             (Some location, w1) \<Rightarrow> (Inr (Some location), w1)
           | (None, w1) \<Rightarrow>
               poll_loop E image_name image_path timeout region start_time
                 (sleep E check_interval
                    (if image_name \<noteq> ''7.png'' then
                       (case locateCenterOnScreen E (get_image_path E ''7.png'') None w1 of
                          (Found popup_location, w1a) \<Rightarrow>
                            snd (click_without_scan E ''7.png'' None None
                                   (log E INFO (PopupDetected popup_location) w1a))
                        | (NotFound, w1a) \<Rightarrow> w1a
                        | (LocateRaised, w1a) \<Rightarrow> w1a)
                     else w1)))
        else (Inr None, log E WARNING (WaitTimeout image_name) u))"
    by (subst poll_loop.simps)
      (simp add: Let_def click7 split: prod.split option.split locate_result.split)
  have "click_event E ''7.png'' = click_own E ''7.png''"
    by (rule ext) (simp add: click_event_def)
  then have "steps_by (click_own E ''7.png'') w
      (snd (click_image_with_offset E ''7.png'' t r w))"
    using alphabet(3) [of E "''7.png''" w t r] by simp
  then show "list_all (click_own E ''7.png'')
         (new_events w (snd (click_image_with_offset E ''7.png'' t r w)))"
    by (simp add: steps_by_def)
qed

end
